theory Spec2Isabelle
  imports Main
begin

section \<open>Strings, digits and errors\<close>

text \<open>
  A Python \<open>str\<close> is a sequence of Unicode code points, so it is modelled as a list of
  natural numbers (the code points), not as a list of bytes. \<open>lit\<close> embeds an ASCII
  literal.
\<close>

type_synonym pystr = "nat list"

definition lit :: "string \<Rightarrow> pystr" where
  "lit s = map of_char s"

text \<open>
  The characters of general category Nd (decimal digit) come in runs of ten, zero first.
  \<open>Nd_starts\<close> lists the code point of the zero of every run (Unicode 14, the database of
  CPython 3.11). \<open>str.isdecimal\<close> and the regular expression class \<open>\d\<close> accept exactly
  these characters; \<open>int\<close> reads each of them as its position in the run.
\<close>

definition Nd_starts :: "nat list" where
  "Nd_starts =
    [48, 1632, 1776, 1984, 2406, 2534, 2662, 2790, 2918, 3046, 3174, 3302, 3430, 3558,
     3664, 3792, 3872, 4160, 4240, 6112, 6160, 6470, 6608, 6784, 6800, 6992, 7088, 7232,
     7248, 42528, 43216, 43264, 43472, 43504, 43600, 44016, 65296, 66720, 68912, 69734,
     69872, 69942, 70096, 70384, 70736, 70864, 71248, 71360, 71472, 71904, 72016, 72784,
     73040, 73120, 92768, 92864, 93008, 120782, 120792, 120802, 120812, 120822, 123200,
     123632, 125264, 130032]"

definition in_run :: "nat \<Rightarrow> nat \<Rightarrow> bool" where
  "in_run c s = (s \<le> c \<and> c < s + 10)"

definition isdecimal_cp :: "nat \<Rightarrow> bool" where
  "isdecimal_cp c = list_ex (in_run c) Nd_starts"

definition decimal_value :: "nat \<Rightarrow> int" where
  "decimal_value c = (case List.find (in_run c) Nd_starts of Some s \<Rightarrow> int (c - s) | None \<Rightarrow> 0)"

text \<open>
  \<open>str.isdigit\<close> accepts more: every character whose Numeric_Type is Decimal or Digit.
  \<open>other_digit_ranges\<close> lists the inclusive ranges of the characters of type Digit that
  are not decimal (superscripts, subscripts, circled digits and so on).
\<close>

definition other_digit_ranges :: "(nat \<times> nat) list" where
  "other_digit_ranges =
    [(178, 179), (185, 185), (4969, 4977), (6618, 6618), (8304, 8304), (8308, 8313),
     (8320, 8329), (9312, 9320), (9332, 9340), (9352, 9360), (9450, 9450), (9461, 9469),
     (9471, 9471), (10102, 10110), (10112, 10120), (10122, 10130), (68160, 68163),
     (69216, 69224), (69714, 69722), (127232, 127242)]"

definition isdigit_cp :: "nat \<Rightarrow> bool" where
  "isdigit_cp c = (isdecimal_cp c \<or> list_ex (\<lambda>(lo, hi). lo \<le> c \<and> c \<le> hi) other_digit_ranges)"

text \<open>\<open>str.isdigit\<close>: true when the string is not empty and every character is a digit.\<close>

definition isdigit :: "pystr \<Rightarrow> bool" where
  "isdigit s = (s \<noteq> [] \<and> list_all isdigit_cp s)"

definition ascii_digit :: "nat \<Rightarrow> bool" where
  "ascii_digit c = (48 \<le> c \<and> c \<le> 57)"

text \<open>
  The exceptions the program can raise. \<open>ValueError\<close> carries its message; the spec calls
  it FormatError. \<open>OverflowError\<close> is what date arithmetic raises beyond year 9999.
\<close>

datatype error = ValueError string | OverflowError string

section \<open>Fields\<close>

text \<open>
  \<open>class Field\<close> has the single attribute \<open>value\<close> (here \<open>val\<close>); \<open>Name\<close>, \<open>Phone\<close> and
  \<open>Birthday\<close> add no attribute, only a check in the constructor.
\<close>

datatype Field = Field (val: pystr)

definition str_Field :: "Field \<Rightarrow> pystr" where
  "str_Field f = val f"

definition Name :: "pystr \<Rightarrow> Field" where
  "Name v = Field v"

definition Phone :: "pystr \<Rightarrow> error + Field" where
  "Phone v =
     (if \<not> (isdigit v \<and> length v = 10) then Inl (ValueError ''Invalid phone number format.'')
      else Inr (Field v))"

section \<open>Dates\<close>

text \<open>
  The calendar arithmetic of the \<open>datetime\<close> module. Years run from \<open>MINYEAR\<close> to
  \<open>MAXYEAR\<close>; \<open>ymd2ord\<close> numbers the days, 1 January of year 1 being day 1.
\<close>

definition MINYEAR :: int where
  "MINYEAR = 1"

definition MAXYEAR :: int where
  "MAXYEAR = 9999"

definition MAXORDINAL :: int where
  "MAXORDINAL = 3652059"

definition is_leap :: "int \<Rightarrow> bool" where
  "is_leap year = (year mod 4 = 0 \<and> (year mod 100 \<noteq> 0 \<or> year mod 400 = 0))"

definition days_before_year :: "int \<Rightarrow> int" where
  "days_before_year year =
     (let y = year - 1 in y * 365 + y div 4 - y div 100 + y div 400)"

definition DAYS_IN_MONTH :: "int list" where
  "DAYS_IN_MONTH = [-1, 31, 28, 31, 30, 31, 30, 31, 31, 30, 31, 30, 31]"

definition DAYS_BEFORE_MONTH :: "int list" where
  "DAYS_BEFORE_MONTH = [-1, 0, 31, 59, 90, 120, 151, 181, 212, 243, 273, 304, 334]"

definition days_in_month :: "int \<Rightarrow> int \<Rightarrow> int" where
  "days_in_month year month =
     (if month = 2 \<and> is_leap year then 29 else DAYS_IN_MONTH ! nat month)"

definition days_before_month :: "int \<Rightarrow> int \<Rightarrow> int" where
  "days_before_month year month =
     DAYS_BEFORE_MONTH ! nat month + (if month > 2 \<and> is_leap year then 1 else 0)"

definition ymd2ord :: "int \<Rightarrow> int \<Rightarrow> int \<Rightarrow> int" where
  "ymd2ord year month day = days_before_year year + days_before_month year month + day"

text \<open>
  A \<open>datetime\<close> is kept as the ordinal of its date (\<open>toordinal()\<close>) and its time of day.
  Python compares two of them field by field, year first; \<open>ymd2ord\<close> grows strictly
  with the date, so comparing ordinals first gives the same order.
\<close>

record datetime =
  ordinal :: int
  hour :: nat
  minute :: nat
  second :: nat
  microsecond :: nat

definition datetime_le :: "datetime \<Rightarrow> datetime \<Rightarrow> bool" where
  "datetime_le a b =
     (ordinal a < ordinal b \<or> (ordinal a = ordinal b \<and>
       (hour a < hour b \<or> (hour a = hour b \<and>
         (minute a < minute b \<or> (minute a = minute b \<and>
           (second a < second b \<or> (second a = second b \<and>
             microsecond a \<le> microsecond b))))))))"

definition weekday :: "datetime \<Rightarrow> int" where
  "weekday dt = (ordinal dt + 6) mod 7"

text \<open>\<open>dt + timedelta(days=n)\<close>: the time of day stays, the date must stay in range.\<close>

definition add_days :: "datetime \<Rightarrow> int \<Rightarrow> error + datetime" where
  "add_days dt n =
     (if 0 < ordinal dt + n \<and> ordinal dt + n \<le> MAXORDINAL
      then Inr (dt\<lparr>ordinal := ordinal dt + n\<rparr>)
      else Inl (OverflowError ''date value out of range''))"

section \<open>Parsing a date with the format \<open>%d.%m.%Y\<close>\<close>

text \<open>
  \<open>strptime\<close> turns the format into a regular expression and matches it at the start of
  the string. The expression uses single characters, character ranges, \<open>\d\<close>, sequence
  and alternation only. \<open>re_match\<close> lists the ways an expression matches a prefix of the
  string, as pairs of the matched text and the rest, in the order in which a backtracking
  matcher tries them: the alternatives from left to right.
\<close>

datatype re = Chr nat | Range nat nat | Digit | Seq re re | Alt re re

fun re_match :: "re \<Rightarrow> pystr \<Rightarrow> (pystr \<times> pystr) list" where
  "re_match (Chr c) s =
     (case s of [] \<Rightarrow> [] | x # r \<Rightarrow> if x = c then [([x], r)] else [])"
| "re_match (Range lo hi) s =
     (case s of [] \<Rightarrow> [] | x # r \<Rightarrow> if lo \<le> x \<and> x \<le> hi then [([x], r)] else [])"
| "re_match Digit s =
     (case s of [] \<Rightarrow> [] | x # r \<Rightarrow> if isdecimal_cp x then [([x], r)] else [])"
| "re_match (Seq a b) s =
     concat (map (\<lambda>(u, r). map (\<lambda>(v, r'). (u @ v, r')) (re_match b r)) (re_match a s))"
| "re_match (Alt a b) s = re_match a s @ re_match b s"

text \<open>
  The three directives, as the module spells them:
  \<open>%d\<close> is \<open>3[0-1]|[1-2]\d|0[1-9]|[1-9]| [1-9]\<close>,
  \<open>%m\<close> is \<open>1[0-2]|0[1-9]|[1-9]\<close> and \<open>%Y\<close> is \<open>\d\d\d\d\<close>.
\<close>

definition re_d :: re where
  "re_d =
     Alt (Seq (Chr 51) (Range 48 49))
    (Alt (Seq (Range 49 50) Digit)
    (Alt (Seq (Chr 48) (Range 49 57))
    (Alt (Range 49 57)
         (Seq (Chr 32) (Range 49 57)))))"

definition re_m :: re where
  "re_m =
     Alt (Seq (Chr 49) (Range 48 50))
    (Alt (Seq (Chr 48) (Range 49 57))
         (Range 49 57))"

definition re_Y :: re where
  "re_Y = Seq Digit (Seq Digit (Seq Digit Digit))"

text \<open>
  The whole expression is \<open>%d\<close>, a dot, \<open>%m\<close>, a dot, \<open>%Y\<close>. \<open>format_regex_matches\<close>
  lists the ways it matches, each with the groups \<open>d\<close>, \<open>m\<close>, \<open>Y\<close> and what is left of
  the string after the match; \<open>match\<close> returns the first.
\<close>

definition format_regex_matches :: "pystr \<Rightarrow> (pystr \<times> pystr \<times> pystr \<times> pystr) list" where
  "format_regex_matches s =
     concat (map (\<lambda>(d, r1).
       concat (map (\<lambda>(dot1, r2).
         concat (map (\<lambda>(m, r3).
           concat (map (\<lambda>(dot2, r4).
             map (\<lambda>(y, r5). (d, m, y, r5)) (re_match re_Y r4))
           (re_match (Chr 46) r3)))
         (re_match re_m r2)))
       (re_match (Chr 46) r1)))
     (re_match re_d s))"

definition format_regex_match :: "pystr \<Rightarrow> (pystr \<times> pystr \<times> pystr \<times> pystr) option" where
  "format_regex_match s =
     (case format_regex_matches s of [] \<Rightarrow> None | found # _ \<Rightarrow> Some found)"

text \<open>
  \<open>int\<close> on a group: blanks at both ends are dropped, what remains must be a non-empty
  run of decimal characters. (Signs and underscores, which \<open>int\<close> also reads, cannot
  occur in a group and are not modelled: they give \<open>None\<close>.)
\<close>

fun digits_value :: "int \<Rightarrow> pystr \<Rightarrow> int option" where
  "digits_value acc [] = Some acc"
| "digits_value acc (c # cs) =
     (if isdecimal_cp c then digits_value (10 * acc + decimal_value c) cs else None)"

definition strip :: "pystr \<Rightarrow> pystr" where
  "strip s = rev (dropWhile (\<lambda>c. c = 32) (rev (dropWhile (\<lambda>c. c = 32) s)))"

definition py_int :: "pystr \<Rightarrow> int option" where
  "py_int s = (if strip s = [] then None else digits_value 0 (strip s))"

text \<open>
  \<open>datetime.strptime(data_string, "%d.%m.%Y")\<close>: match, refuse text left over, convert
  the groups, build the date (which checks year, month and day), at midnight. The
  messages of the module that quote the input are shortened.
\<close>

definition strptime :: "pystr \<Rightarrow> error + datetime" where
  "strptime data_string =
     (case format_regex_match data_string of
        None \<Rightarrow> Inl (ValueError ''time data does not match format'')
      | Some (d, m, y, rest) \<Rightarrow>
          if rest \<noteq> [] then Inl (ValueError ''unconverted data remains'')
          else
            (case (py_int y, py_int m, py_int d) of
               (Some year, Some month, Some day) \<Rightarrow>
                 if \<not> (MINYEAR \<le> year \<and> year \<le> MAXYEAR)
                 then Inl (ValueError ''year is out of range'')
                 else if \<not> (1 \<le> month \<and> month \<le> 12)
                 then Inl (ValueError ''month must be in 1..12'')
                 else if \<not> (1 \<le> day \<and> day \<le> days_in_month year month)
                 then Inl (ValueError ''day is out of range for month'')
                 else Inr \<lparr>ordinal = ymd2ord year month day,
                           hour = 0, minute = 0, second = 0, microsecond = 0\<rparr>
             | _ \<Rightarrow> Inl (ValueError ''invalid literal for int()'')))"

definition Birthday :: "pystr \<Rightarrow> error + Field" where
  "Birthday v =
     (case strptime v of
        Inl (ValueError msg) \<Rightarrow> Inl (ValueError ''Invalid birthday format. Use DD.MM.YYYY.'')
      | Inl e \<Rightarrow> Inl e
      | Inr dt \<Rightarrow> Inr (Field v))"

section \<open>Records\<close>

record Record =
  name :: Field
  phones :: "Field list"
  birthday :: "Field option"

definition Record_init :: "pystr \<Rightarrow> Record" where
  "Record_init nm = \<lparr>name = Name nm, phones = [], birthday = None\<rparr>"

text \<open>
  A method that mutates the record returns its outcome (an error, or unit) together with
  the record as it is afterwards. An exception raised before any assignment leaves the
  record as it was.
\<close>

definition add_phone :: "pystr \<Rightarrow> Record \<Rightarrow> (error + unit) \<times> Record" where
  "add_phone phone r =
     (case Phone phone of
        Inl e \<Rightarrow> (Inl e, r)
      | Inr p \<Rightarrow> (Inr (), r\<lparr>phones := phones r @ [p]\<rparr>))"

text \<open>
  \<open>remove_phone\<close> and \<open>edit_phone\<close> walk the list and stop at the first entry whose value
  equals the argument. Every entry is an object of its own (\<open>add_phone\<close> builds a fresh
  \<open>Phone\<close> each time), so the list is modelled by value.
\<close>

fun remove_phone_loop :: "pystr \<Rightarrow> Field list \<Rightarrow> Field list" where
  "remove_phone_loop phone [] = []"
| "remove_phone_loop phone (p # ps) =
     (if val p = phone then ps else p # remove_phone_loop phone ps)"

definition remove_phone :: "pystr \<Rightarrow> Record \<Rightarrow> (error + unit) \<times> Record" where
  "remove_phone phone r = (Inr (), r\<lparr>phones := remove_phone_loop phone (phones r)\<rparr>)"

fun edit_phone_loop :: "pystr \<Rightarrow> pystr \<Rightarrow> Field list \<Rightarrow> Field list" where
  "edit_phone_loop old_phone new_phone [] = []"
| "edit_phone_loop old_phone new_phone (p # ps) =
     (if val p = old_phone then Field new_phone # ps
      else p # edit_phone_loop old_phone new_phone ps)"

definition edit_phone :: "pystr \<Rightarrow> pystr \<Rightarrow> Record \<Rightarrow> (error + unit) \<times> Record" where
  "edit_phone old_phone new_phone r =
     (Inr (), r\<lparr>phones := edit_phone_loop old_phone new_phone (phones r)\<rparr>)"

definition add_birthday :: "pystr \<Rightarrow> Record \<Rightarrow> (error + unit) \<times> Record" where
  "add_birthday b r =
     (case Birthday b of
        Inl e \<Rightarrow> (Inl e, r)
      | Inr f \<Rightarrow> (Inr (), r\<lparr>birthday := Some f\<rparr>))"

section \<open>The address book\<close>

text \<open>
  A Python \<open>dict\<close> keeps its keys in insertion order: assigning to a key that is present
  replaces the value where it stands, assigning to a new key appends. It is modelled as an
  association list; the keys of every dictionary built by these operations are distinct.
\<close>

type_synonym ('k, 'v) dict = "('k \<times> 'v) list"

fun dict_setitem :: "'k \<Rightarrow> 'v \<Rightarrow> ('k, 'v) dict \<Rightarrow> ('k, 'v) dict" where
  "dict_setitem k v [] = [(k, v)]"
| "dict_setitem k v ((k', v') # d) =
     (if k' = k then (k', v) # d else (k', v') # dict_setitem k v d)"

fun dict_get :: "'k \<Rightarrow> ('k, 'v) dict \<Rightarrow> 'v option" where
  "dict_get k [] = None"
| "dict_get k ((k', v') # d) = (if k' = k then Some v' else dict_get k d)"

definition dict_contains :: "'k \<Rightarrow> ('k, 'v) dict \<Rightarrow> bool" where
  "dict_contains k d = (dict_get k d \<noteq> None)"

fun dict_delitem :: "'k \<Rightarrow> ('k, 'v) dict \<Rightarrow> ('k, 'v) dict" where
  "dict_delitem k [] = []"
| "dict_delitem k ((k', v') # d) =
     (if k' = k then dict_delitem k d else (k', v') # dict_delitem k d)"

record AddressBook =
  data :: "(pystr, Record) dict"

definition add_record :: "Record \<Rightarrow> AddressBook \<Rightarrow> AddressBook" where
  "add_record record book = book\<lparr>data := dict_setitem (val (name record)) record (data book)\<rparr>"

definition AddressBook_find :: "pystr \<Rightarrow> AddressBook \<Rightarrow> Record option" where
  "AddressBook_find nm book = dict_get nm (data book)"

definition delete :: "pystr \<Rightarrow> AddressBook \<Rightarrow> AddressBook" where
  "delete nm book =
     (if dict_contains nm (data book) then book\<lparr>data := dict_delitem nm (data book)\<rparr>
      else book)"

text \<open>
  \<open>get_birthdays_per_week\<close> reads the clock (\<open>datetime.today()\<close>, here the argument
  \<open>today\<close>, a date with its time of day), computes the two bounds and walks the items of
  the dictionary in order, appending to \<open>upcoming_birthdays\<close>. It returns its outcome
  together with the book as it is afterwards.
\<close>

fun birthdays_loop ::
  "datetime \<Rightarrow> datetime \<Rightarrow> (pystr, Record) dict \<Rightarrow> pystr list \<Rightarrow> error + pystr list" where
  "birthdays_loop next_week_start next_week_end [] upcoming_birthdays = Inr upcoming_birthdays"
| "birthdays_loop next_week_start next_week_end ((nm, record) # items) upcoming_birthdays =
     (case birthday record of
        None \<Rightarrow> birthdays_loop next_week_start next_week_end items upcoming_birthdays
      | Some b \<Rightarrow>
          (case strptime (val b) of
             Inl e \<Rightarrow> Inl e
           | Inr birth_date \<Rightarrow>
               if datetime_le next_week_start birth_date \<and> datetime_le birth_date next_week_end
               then birthdays_loop next_week_start next_week_end items
                      (upcoming_birthdays @ [nm @ lit '': '' @ str_Field b])
               else birthdays_loop next_week_start next_week_end items upcoming_birthdays))"

definition get_birthdays_per_week ::
  "datetime \<Rightarrow> AddressBook \<Rightarrow> (error + pystr list) \<times> AddressBook" where
  "get_birthdays_per_week today book =
     (case add_days today ((6 - weekday today) + 7) of
        Inl e \<Rightarrow> (Inl e, book)
      | Inr next_week_start \<Rightarrow>
          (case add_days next_week_start 6 of
             Inl e \<Rightarrow> (Inl e, book)
           | Inr next_week_end \<Rightarrow>
               (birthdays_loop next_week_start next_week_end (data book) [], book)))"

section \<open>Notions used to state the properties\<close>

subsection \<open>The language of a regular expression\<close>

fun lang :: "re \<Rightarrow> pystr set" where
  "lang (Chr c) = {[c]}"
| "lang (Range lo hi) = {[x] |x. lo \<le> x \<and> x \<le> hi}"
| "lang Digit = {[x] |x. isdecimal_cp x}"
| "lang (Seq a b) = {u @ v |u v. u \<in> lang a \<and> v \<in> lang b}"
| "lang (Alt a b) = lang a \<union> lang b"

subsection \<open>Date strings\<close>

text \<open>The fields of a string between its dots, as \<open>s.split(".")\<close> gives them.\<close>

fun split_dot :: "pystr \<Rightarrow> pystr list" where
  "split_dot [] = [[]]"
| "split_dot (c # cs) =
     (if c = 46 then [] # split_dot cs
      else (c # hd (split_dot cs)) # tl (split_dot cs))"

text \<open>
  The exact pattern DD.MM.YYYY: three fields, of two, two and four ASCII digits.
\<close>

definition matches_DD_MM_YYYY :: "pystr \<Rightarrow> bool" where
  "matches_DD_MM_YYYY s =
     (case split_dot s of
        [d, m, y] \<Rightarrow>
          length d = 2 \<and> list_all ascii_digit d \<and> length m = 2 \<and> list_all ascii_digit m \<and>
          length y = 4 \<and> list_all ascii_digit y
      | _ \<Rightarrow> False)"

text \<open>
  The pattern that \<open>%d.%m.%Y\<close> accepts. A day is 1 to 31, written with one digit, or with
  two, the first of which may be a zero or a blank. A month is 1 to 12, written with one
  digit or with two. The digits are ASCII digits, except that the second digit of a day
  from 10 to 29 and the four digits of the year may be any decimal characters.
\<close>

definition day_text :: "pystr \<Rightarrow> bool" where
  "day_text d =
     (case d of
        [a] \<Rightarrow> 49 \<le> a \<and> a \<le> 57
      | [a, b] \<Rightarrow>
          (a = 51 \<and> 48 \<le> b \<and> b \<le> 49) \<or> (49 \<le> a \<and> a \<le> 50 \<and> isdecimal_cp b) \<or>
          ((a = 48 \<or> a = 32) \<and> 49 \<le> b \<and> b \<le> 57)
      | _ \<Rightarrow> False)"

definition month_text :: "pystr \<Rightarrow> bool" where
  "month_text m =
     (case m of
        [a] \<Rightarrow> 49 \<le> a \<and> a \<le> 57
      | [a, b] \<Rightarrow> (a = 49 \<and> 48 \<le> b \<and> b \<le> 50) \<or> (a = 48 \<and> 49 \<le> b \<and> b \<le> 57)
      | _ \<Rightarrow> False)"

definition year_text :: "pystr \<Rightarrow> bool" where
  "year_text y = (length y = 4 \<and> list_all isdecimal_cp y)"

definition matches_strptime_pattern :: "pystr \<Rightarrow> bool" where
  "matches_strptime_pattern s =
     (case split_dot s of
        [d, m, y] \<Rightarrow> day_text d \<and> month_text m \<and> year_text y
      | _ \<Rightarrow> False)"

text \<open>
  The year, month and day that the three fields of a string spell, and whether there is
  such a day in the calendar: the lengths of the months, with the Gregorian leap years, in
  the years 1 to 9999.
\<close>

definition date_fields :: "pystr \<Rightarrow> (int \<times> int \<times> int) option" where
  "date_fields s =
     (case split_dot s of
        [d, m, y] \<Rightarrow>
          (case (py_int y, py_int m, py_int d) of
             (Some year, Some month, Some day) \<Rightarrow> Some (year, month, day)
           | _ \<Rightarrow> None)
      | _ \<Rightarrow> None)"

definition leap_year :: "int \<Rightarrow> bool" where
  "leap_year y = (y mod 4 = 0 \<and> (y mod 100 \<noteq> 0 \<or> y mod 400 = 0))"

definition month_length :: "int \<Rightarrow> int \<Rightarrow> int" where
  "month_length y m =
     (if m = 2 then (if leap_year y then 29 else 28)
      else if m = 4 \<or> m = 6 \<or> m = 9 \<or> m = 11 then 30 else 31)"

definition existing_date :: "int \<Rightarrow> int \<Rightarrow> int \<Rightarrow> bool" where
  "existing_date y m d =
     (1 \<le> y \<and> y \<le> 9999 \<and> 1 \<le> m \<and> m \<le> 12 \<and> 1 \<le> d \<and> d \<le> month_length y m)"

definition denotes_existing_date :: "pystr \<Rightarrow> bool" where
  "denotes_existing_date s =
     (case date_fields s of Some (y, m, d) \<Rightarrow> existing_date y m d | None \<Rightarrow> False)"

definition midnight :: "int \<Rightarrow> datetime" where
  "midnight n = \<lparr>ordinal = n, hour = 0, minute = 0, second = 0, microsecond = 0\<rparr>"

subsection \<open>The birthday window\<close>

text \<open>
  The window in calendar days: the number of days added to the reference date, and the
  day numbers of the first and the last day of the window.
\<close>

definition daysUntilNextMonday :: "datetime \<Rightarrow> int" where
  "daysUntilNextMonday ref = (6 - weekday ref) + 7"

definition windowStart :: "datetime \<Rightarrow> int" where
  "windowStart ref = ordinal ref + daysUntilNextMonday ref"

definition windowEnd :: "datetime \<Rightarrow> int" where
  "windowEnd ref = windowStart ref + 6"

definition window_in_range :: "datetime \<Rightarrow> bool" where
  "window_in_range ref = (0 < windowStart ref \<and> windowEnd ref \<le> MAXORDINAL)"

definition at_midnight :: "datetime \<Rightarrow> bool" where
  "at_midnight ref = (hour ref = 0 \<and> minute ref = 0 \<and> second ref = 0 \<and> microsecond ref = 0)"

text \<open>The day number of the date that a birthday spells, its year included.\<close>

definition birthday_date :: "Field \<Rightarrow> int option" where
  "birthday_date b =
     (case date_fields (val b) of Some (y, m, d) \<Rightarrow> Some (ymd2ord y m d) | None \<Rightarrow> None)"

text \<open>
  Two readings of "the birthday lies in the window". By calendar date, both ends
  included; and as the comparison of date-times sees it, where the bounds carry the time
  of day of the reference and the birthday is at midnight, so that the first day counts
  only when the reference is at midnight itself.
\<close>

definition in_window_by_date :: "datetime \<Rightarrow> Field \<Rightarrow> bool" where
  "in_window_by_date ref b =
     (case birthday_date b of
        None \<Rightarrow> False
      | Some n \<Rightarrow> windowStart ref \<le> n \<and> n \<le> windowEnd ref)"

definition in_window :: "datetime \<Rightarrow> Field \<Rightarrow> bool" where
  "in_window ref b =
     (case birthday_date b of
        None \<Rightarrow> False
      | Some n \<Rightarrow>
          (windowStart ref < n \<or> (windowStart ref = n \<and> at_midnight ref)) \<and> n \<le> windowEnd ref)"

text \<open>
  The lines \<open>name: birthday\<close> of the records that have a birthday and are selected, in
  the order of the dictionary.
\<close>

definition upcoming :: "(Field \<Rightarrow> bool) \<Rightarrow> AddressBook \<Rightarrow> pystr list" where
  "upcoming selected book =
     concat (map (\<lambda>(nm, r).
        case birthday r of
          None \<Rightarrow> []
        | Some b \<Rightarrow> if selected b then [nm @ lit '': '' @ val b] else [])
      (data book))"

text \<open>Every birthday in the book was built by \<open>Birthday\<close>, as \<open>add_birthday\<close> does.\<close>

definition birthdays_valid :: "AddressBook \<Rightarrow> bool" where
  "birthdays_valid book =
     list_all (\<lambda>(nm, r). case birthday r of None \<Rightarrow> True | Some b \<Rightarrow> Birthday (val b) = Inr b)
       (data book)"

section \<open>Phone numbers\<close>

lemma isdecimal_cp_ascii: "ascii_digit c \<Longrightarrow> isdecimal_cp c"
  by (simp add: isdecimal_cp_def Nd_starts_def in_run_def ascii_digit_def)

lemma isdigit_cp_ascii: "ascii_digit c \<Longrightarrow> isdigit_cp c"
  by (simp add: isdigit_cp_def isdecimal_cp_ascii)

lemma Phone_cases:
  "Phone s = (if length s = 10 \<and> list_all isdigit_cp s then Inr (Field s)
              else Inl (ValueError ''Invalid phone number format.''))"
  by (auto simp: Phone_def isdigit_def)

text \<open>
  A string of ten superscript twos (U+00B2) is accepted by \<open>Phone\<close>, although none of its
  characters is an ASCII digit: \<open>str.isdigit\<close> is true of every character whose Unicode
  numeric type is Digit or Decimal.
\<close>

theorem Phone_superscript_counterexample:
  "Phone [178, 178, 178, 178, 178, 178, 178, 178, 178, 178] =
     Inr (Field [178, 178, 178, 178, 178, 178, 178, 178, 178, 178])
   \<and> \<not> list_all ascii_digit [178, 178, 178, 178, 178, 178, 178, 178, 178, 178]"
  by (simp add: Phone_def isdigit_def isdigit_cp_def other_digit_ranges_def ascii_digit_def)

text \<open>
  C4, as the code has it: \<open>Phone\<close> succeeds exactly on the strings of ten characters that
  are all digits in the sense of \<open>str.isdigit\<close>; on success the field renders back to the
  string; every other string is refused with the \<open>ValueError\<close> of the constructor; and
  every string of ten ASCII digits is among those accepted.
\<close>

theorem Phone_succeeds_iff:
  "((\<exists>p. Phone s = Inr p) \<longleftrightarrow> length s = 10 \<and> list_all isdigit_cp s)
   \<and> (\<forall>p. Phone s = Inr p \<longrightarrow> str_Field p = s)
   \<and> (\<not> (length s = 10 \<and> list_all isdigit_cp s) \<longrightarrow>
        Phone s = Inl (ValueError ''Invalid phone number format.''))
   \<and> (length s = 10 \<and> list_all ascii_digit s \<longrightarrow> Phone s = Inr (Field s))"
proof -
  have "list_all ascii_digit s \<Longrightarrow> list_all isdigit_cp s"
    by (induction s) (auto simp: isdigit_cp_ascii)
  then show ?thesis
    by (auto simp: Phone_cases str_Field_def)
qed

theorem Phone_succeeds_iff_witness:
  "Phone (lit ''0123456789'') = Inr (Field (lit ''0123456789''))
   \<and> Phone (lit ''12345'') = Inl (ValueError ''Invalid phone number format.'')"
  using Phone_succeeds_iff [of "lit ''0123456789''"] Phone_succeeds_iff [of "lit ''12345''"]
  by (simp add: lit_def ascii_digit_def)

text \<open>
  Ten superscript twos are not ten ASCII digits, yet \<open>add_phone\<close> does not refuse them: it
  returns normally and the list of phones has grown by one entry.
\<close>

theorem add_phone_superscript_counterexample:
  "\<not> list_all ascii_digit [178, 178, 178, 178, 178, 178, 178, 178, 178, 178]
   \<and> add_phone [178, 178, 178, 178, 178, 178, 178, 178, 178, 178]
       \<lparr>name = Name (lit ''Ann''), phones = [Field (lit ''0123456789'')], birthday = None\<rparr>
     = (Inr (),
        \<lparr>name = Name (lit ''Ann''),
           phones = [Field (lit ''0123456789''),
                     Field [178, 178, 178, 178, 178, 178, 178, 178, 178, 178]],
           birthday = None\<rparr>)"
  by (simp add: add_phone_def Phone_def isdigit_def isdigit_cp_def other_digit_ranges_def
      ascii_digit_def)

text \<open>
  C8, as the code has it: \<open>add_phone\<close> with a string that \<open>Phone\<close> refuses, that is, a string
  that is not ten characters all of which are digits in the sense of \<open>str.isdigit\<close>, raises
  the \<open>ValueError\<close> of \<open>Phone\<close> and leaves the record, and so its list of phones, as it was.
\<close>

theorem add_phone_invalid_unchanged:
  "\<not> (length raw = 10 \<and> list_all isdigit_cp raw) \<Longrightarrow>
     add_phone raw r = (Inl (ValueError ''Invalid phone number format.''), r)"
  by (simp add: add_phone_def Phone_cases)

theorem add_phone_invalid_unchanged_witness:
  "add_phone (lit ''12ab'') \<lparr>name = Name (lit ''Ann''), phones = [Field (lit ''0123456789'')], birthday = None\<rparr>
     = (Inl (ValueError ''Invalid phone number format.''),
        \<lparr>name = Name (lit ''Ann''), phones = [Field (lit ''0123456789'')], birthday = None\<rparr>)"
  using add_phone_invalid_unchanged [of "lit ''12ab''"]
  by (simp add: lit_def)

text \<open>
  C2: \<open>edit_phone\<close> assigns the new value without building a \<open>Phone\<close>. With \<open>abc\<close>, which
  \<open>Phone\<close> refuses, it returns normally: the entry is overwritten when the old number is in
  the list, and nothing happens when it is not. It never raises.
\<close>

theorem edit_phone_no_validation:
  "Phone (lit ''abc'') = Inl (ValueError ''Invalid phone number format.'')
   \<and> edit_phone (lit ''0123456789'') (lit ''abc'')
       \<lparr>name = Name (lit ''Ann''), phones = [Field (lit ''0123456789'')], birthday = None\<rparr>
     = (Inr (), \<lparr>name = Name (lit ''Ann''), phones = [Field (lit ''abc'')], birthday = None\<rparr>)
   \<and> edit_phone (lit ''5555555555'') (lit ''abc'')
       \<lparr>name = Name (lit ''Ann''), phones = [Field (lit ''0123456789'')], birthday = None\<rparr>
     = (Inr (), \<lparr>name = Name (lit ''Ann''), phones = [Field (lit ''0123456789'')], birthday = None\<rparr>)"
  by (simp add: Phone_cases edit_phone_def lit_def)

lemma edit_phone_loop_absent:
  "old \<notin> val ` set ps \<Longrightarrow> edit_phone_loop old new ps = ps"
  by (induction ps) auto

lemma edit_phone_loop_present:
  "old \<in> val ` set ps \<Longrightarrow>
     \<exists>i<length ps. val (ps ! i) = old \<and> (\<forall>j<i. val (ps ! j) \<noteq> old) \<and>
        edit_phone_loop old new ps = ps[i := Field new]"
proof (induction ps)
  case Nil
  then show ?case by simp
next
  case (Cons p ps)
  show ?case
  proof (cases "val p = old")
    case True
    then have "0 < length (p # ps) \<and> val ((p # ps) ! 0) = old \<and> (\<forall>j<0. val ((p # ps) ! j) \<noteq> old) \<and>
        edit_phone_loop old new (p # ps) = (p # ps)[0 := Field new]"
      by simp
    then show ?thesis by blast
  next
    case False
    with Cons.prems have "old \<in> val ` set ps" by auto
    from Cons.IH [OF this] obtain i where i: "i < length ps" "val (ps ! i) = old"
      "\<forall>j<i. val (ps ! j) \<noteq> old" "edit_phone_loop old new ps = ps[i := Field new]"
      by blast
    have "\<forall>j<Suc i. val ((p # ps) ! j) \<noteq> old"
      using i(3) False by (auto simp: less_Suc_eq_0_disj)
    with i False have "Suc i < length (p # ps) \<and> val ((p # ps) ! Suc i) = old \<and>
        (\<forall>j<Suc i. val ((p # ps) ! j) \<noteq> old) \<and>
        edit_phone_loop old new (p # ps) = (p # ps)[Suc i := Field new]"
      by simp
    then show ?thesis by blast
  qed
qed

text \<open>
  C6: when some entry has the value \<open>old\<close>, \<open>edit_phone\<close> changes the list at one index
  only, the first one whose entry has that value, so the order and all other entries stay;
  when no entry has it, the record is unchanged. In both cases it returns without error.
\<close>

theorem edit_phone_replaces_first:
  "(old \<in> val ` set (phones r) \<longrightarrow>
      (\<exists>i<length (phones r). val (phones r ! i) = old \<and> (\<forall>j<i. val (phones r ! j) \<noteq> old) \<and>
         edit_phone old new r = (Inr (), r\<lparr>phones := (phones r)[i := Field new]\<rparr>)))
   \<and> (old \<notin> val ` set (phones r) \<longrightarrow> edit_phone old new r = (Inr (), r))"
proof (intro conjI impI)
  assume "old \<in> val ` set (phones r)"
  from edit_phone_loop_present [OF this, of new]
  show "\<exists>i<length (phones r). val (phones r ! i) = old \<and> (\<forall>j<i. val (phones r ! j) \<noteq> old) \<and>
         edit_phone old new r = (Inr (), r\<lparr>phones := (phones r)[i := Field new]\<rparr>)"
    by (auto simp: edit_phone_def)
next
  assume "old \<notin> val ` set (phones r)"
  then show "edit_phone old new r = (Inr (), r)"
    by (simp add: edit_phone_def edit_phone_loop_absent)
qed

theorem edit_phone_replaces_first_witness:
  "edit_phone [50] [51]
     \<lparr>name = Name [65], phones = [Field [49], Field [50], Field [50]], birthday = None\<rparr>
     = (Inr (), \<lparr>name = Name [65], phones = [Field [49], Field [51], Field [50]], birthday = None\<rparr>)
   \<and> edit_phone [52] [51]
     \<lparr>name = Name [65], phones = [Field [49], Field [50], Field [50]], birthday = None\<rparr>
     = (Inr (), \<lparr>name = Name [65], phones = [Field [49], Field [50], Field [50]], birthday = None\<rparr>)"
proof -
  define r where "r = \<lparr>name = Name [65], phones = [Field [49], Field [50], Field [50]], birthday = None\<rparr>"
  have ps: "phones r = [Field [49], Field [50], Field [50]]"
    by (simp add: r_def)
  have present: "[50] \<in> val ` set (phones r)" and absent: "[52] \<notin> val ` set (phones r)"
    by (simp_all add: ps)
  from edit_phone_replaces_first [of "[50]" r "[51]"] present
  obtain i where i: "i < length (phones r)" "val (phones r ! i) = [50]"
    "\<forall>j<i. val (phones r ! j) \<noteq> [50]"
    "edit_phone [50] [51] r = (Inr (), r\<lparr>phones := (phones r)[i := Field [51]]\<rparr>)"
    by blast
  have "i \<noteq> 0"
  proof
    assume "i = 0"
    with i(2) show False by (simp add: ps)
  qed
  moreover have "\<not> 1 < i"
  proof
    assume "1 < i"
    with i(3) have "val (phones r ! 1) \<noteq> [50]" by blast
    then show False by (simp add: ps)
  qed
  ultimately have "i = 1" by simp
  with i(4) have first: "edit_phone [50] [51] r = (Inr (), r\<lparr>phones := [Field [49], Field [51], Field [50]]\<rparr>)"
    by (simp add: ps)
  from edit_phone_replaces_first [of "[52]" r "[51]"] absent
  have second: "edit_phone [52] [51] r = (Inr (), r)"
    by blast
  from first second show ?thesis
    by (simp add: r_def)
qed

section \<open>Matching the date format\<close>

lemma lang_SeqI: "u \<in> lang a \<Longrightarrow> v \<in> lang b \<Longrightarrow> u @ v \<in> lang (Seq a b)"
  by auto


lemma re_match_Seq_iff:
  "(w, r) \<in> set (re_match (Seq a b) s) \<longleftrightarrow>
     (\<exists>u r1 v. (u, r1) \<in> set (re_match a s) \<and> (v, r) \<in> set (re_match b r1) \<and> w = u @ v)"
proof -
  have "(w, r) \<in> set (re_match (Seq a b) s) \<longleftrightarrow>
      (\<exists>p \<in> set (re_match a s). \<exists>q \<in> set (re_match b (snd p)). (w, r) = (fst p @ fst q, snd q))"
    by (simp add: case_prod_beta image_iff)
  also have "\<dots> \<longleftrightarrow>
      (\<exists>u r1 v. (u, r1) \<in> set (re_match a s) \<and> (v, r) \<in> set (re_match b r1) \<and> w = u @ v)"
  proof
    assume "\<exists>p \<in> set (re_match a s). \<exists>q \<in> set (re_match b (snd p)). (w, r) = (fst p @ fst q, snd q)"
    then obtain p q where "p \<in> set (re_match a s)" "q \<in> set (re_match b (snd p))"
      "w = fst p @ fst q" "r = snd q" by auto
    then have "(fst p, snd p) \<in> set (re_match a s) \<and> (fst q, r) \<in> set (re_match b (snd p)) \<and> w = fst p @ fst q"
      by simp
    then show "\<exists>u r1 v. (u, r1) \<in> set (re_match a s) \<and> (v, r) \<in> set (re_match b r1) \<and> w = u @ v"
      by blast
  next
    assume "\<exists>u r1 v. (u, r1) \<in> set (re_match a s) \<and> (v, r) \<in> set (re_match b r1) \<and> w = u @ v"
    then obtain u r1 v where "(u, r1) \<in> set (re_match a s)" "(v, r) \<in> set (re_match b r1)" "w = u @ v"
      by blast
    then show "\<exists>p \<in> set (re_match a s). \<exists>q \<in> set (re_match b (snd p)). (w, r) = (fst p @ fst q, snd q)"
      by force
  qed
  finally show ?thesis .
qed

lemma re_match_iff: "(w, r) \<in> set (re_match e s) \<longleftrightarrow> s = w @ r \<and> w \<in> lang e"
proof (induction e arbitrary: s w r)
  case (Chr c)
  show ?case by (cases s) auto
next
  case (Range lo hi)
  show ?case by (cases s) auto
next
  case Digit
  show ?case by (cases s) auto
next
  case (Seq a b)
  have "(w, r) \<in> set (re_match (Seq a b) s) \<longleftrightarrow>
     (\<exists>u r1 v. (s = u @ r1 \<and> u \<in> lang a) \<and> (r1 = v @ r \<and> v \<in> lang b) \<and> w = u @ v)"
    unfolding re_match_Seq_iff Seq.IH ..
  also have "\<dots> \<longleftrightarrow> s = w @ r \<and> w \<in> lang (Seq a b)"
  proof
    assume "\<exists>u r1 v. (s = u @ r1 \<and> u \<in> lang a) \<and> (r1 = v @ r \<and> v \<in> lang b) \<and> w = u @ v"
    then obtain u r1 v where "s = u @ r1" "u \<in> lang a" "r1 = v @ r" "v \<in> lang b" "w = u @ v"
      by blast
    then show "s = w @ r \<and> w \<in> lang (Seq a b)"
      using lang_SeqI by simp
  next
    assume "s = w @ r \<and> w \<in> lang (Seq a b)"
    then obtain u v where "s = w @ r" "w = u @ v" "u \<in> lang a" "v \<in> lang b"
      by auto
    then have "(s = u @ (v @ r) \<and> u \<in> lang a) \<and> (v @ r = v @ r \<and> v \<in> lang b) \<and> w = u @ v"
      by simp
    then show "\<exists>u r1 v. (s = u @ r1 \<and> u \<in> lang a) \<and> (r1 = v @ r \<and> v \<in> lang b) \<and> w = u @ v"
      by blast
  qed
  finally show ?case .
next
  case (Alt a b)
  show ?case by (auto simp: Alt.IH)
qed

lemma in_lang_Chr: "w \<in> lang (Chr c) \<longleftrightarrow> w = [c]"
  by simp

lemma in_lang_Range: "w \<in> lang (Range lo hi) \<longleftrightarrow> (\<exists>x. w = [x] \<and> lo \<le> x \<and> x \<le> hi)"
  by simp

lemma in_lang_Digit: "w \<in> lang Digit \<longleftrightarrow> (\<exists>x. w = [x] \<and> isdecimal_cp x)"
  by simp

lemma in_lang_Seq_Chr: "w \<in> lang (Seq (Chr c) b) \<longleftrightarrow> (\<exists>v. w = c # v \<and> v \<in> lang b)"
  by simp

lemma in_lang_Seq_Range:
  "w \<in> lang (Seq (Range lo hi) b) \<longleftrightarrow> (\<exists>x v. w = x # v \<and> lo \<le> x \<and> x \<le> hi \<and> v \<in> lang b)"
proof
  assume "w \<in> lang (Seq (Range lo hi) b)"
  then show "\<exists>x v. w = x # v \<and> lo \<le> x \<and> x \<le> hi \<and> v \<in> lang b" by auto
next
  assume "\<exists>x v. w = x # v \<and> lo \<le> x \<and> x \<le> hi \<and> v \<in> lang b"
  then obtain x v where w: "w = [x] @ v" and x: "[x] \<in> lang (Range lo hi)" and v: "v \<in> lang b"
    by auto
  show "w \<in> lang (Seq (Range lo hi) b)"
    unfolding w by (rule lang_SeqI [OF x v])
qed

lemma in_lang_Seq_Digit:
  "w \<in> lang (Seq Digit b) \<longleftrightarrow> (\<exists>x v. w = x # v \<and> isdecimal_cp x \<and> v \<in> lang b)"
proof
  assume "w \<in> lang (Seq Digit b)"
  then show "\<exists>x v. w = x # v \<and> isdecimal_cp x \<and> v \<in> lang b" by auto
next
  assume "\<exists>x v. w = x # v \<and> isdecimal_cp x \<and> v \<in> lang b"
  then obtain x v where w: "w = [x] @ v" and x: "[x] \<in> lang Digit" and v: "v \<in> lang b"
    by auto
  show "w \<in> lang (Seq Digit b)"
    unfolding w by (rule lang_SeqI [OF x v])
qed

lemma in_lang_Alt: "w \<in> lang (Alt a b) \<longleftrightarrow> w \<in> lang a \<or> w \<in> lang b"
  by simp

lemmas in_lang = in_lang_Chr in_lang_Range in_lang_Digit in_lang_Seq_Chr in_lang_Seq_Range
  in_lang_Seq_Digit in_lang_Alt

lemma day_text_cases:
  "day_text d \<longleftrightarrow>
     (\<exists>a. d = [a] \<and> 49 \<le> a \<and> a \<le> 57) \<or>
     (\<exists>a b. d = [a, b] \<and> ((a = 51 \<and> 48 \<le> b \<and> b \<le> 49) \<or> (49 \<le> a \<and> a \<le> 50 \<and> isdecimal_cp b) \<or>
          ((a = 48 \<or> a = 32) \<and> 49 \<le> b \<and> b \<le> 57)))"
  unfolding day_text_def by (simp split: list.splits)

lemma month_text_cases:
  "month_text m \<longleftrightarrow>
     (\<exists>a. m = [a] \<and> 49 \<le> a \<and> a \<le> 57) \<or>
     (\<exists>a b. m = [a, b] \<and> ((a = 49 \<and> 48 \<le> b \<and> b \<le> 50) \<or> (a = 48 \<and> 49 \<le> b \<and> b \<le> 57)))"
  unfolding month_text_def by (simp split: list.splits)

lemma year_text_cases:
  "year_text y \<longleftrightarrow>
     (\<exists>a b c d. y = [a, b, c, d] \<and> isdecimal_cp a \<and> isdecimal_cp b \<and> isdecimal_cp c \<and> isdecimal_cp d)"
proof
  assume "year_text y"
  then have len: "length y = 4" and all: "list_all isdecimal_cp y"
    by (simp_all add: year_text_def)
  from len obtain a b c d where "y = [a, b, c, d]"
    by (auto simp: length_Suc_conv numeral_eq_Suc)
  with all show "\<exists>a b c d. y = [a, b, c, d] \<and> isdecimal_cp a \<and> isdecimal_cp b \<and> isdecimal_cp c \<and> isdecimal_cp d"
    by simp
next
  assume "\<exists>a b c d. y = [a, b, c, d] \<and> isdecimal_cp a \<and> isdecimal_cp b \<and> isdecimal_cp c \<and> isdecimal_cp d"
  then show "year_text y" by (auto simp: year_text_def)
qed

lemma lang_re_d: "d \<in> lang re_d \<longleftrightarrow> day_text d"
  unfolding re_d_def in_lang day_text_cases by auto

lemma lang_re_m: "m \<in> lang re_m \<longleftrightarrow> month_text m"
  unfolding re_m_def in_lang month_text_cases by auto

lemma lang_re_Y: "y \<in> lang re_Y \<longleftrightarrow> year_text y"
  unfolding re_Y_def in_lang year_text_cases by auto


lemma not_isdecimal_46: "\<not> isdecimal_cp 46"
  by (simp add: isdecimal_cp_def Nd_starts_def in_run_def)

lemma day_text_no_dot: "day_text d \<Longrightarrow> 46 \<notin> set d"
  unfolding day_text_cases using not_isdecimal_46 by auto

lemma month_text_no_dot: "month_text m \<Longrightarrow> 46 \<notin> set m"
  unfolding month_text_cases by auto

lemma year_text_no_dot: "year_text y \<Longrightarrow> 46 \<notin> set y"
  unfolding year_text_cases using not_isdecimal_46 by auto

lemma in_concat_map_prod:
  "x \<in> set (concat (map (\<lambda>(a, b). f a b) xs)) \<longleftrightarrow> (\<exists>a b. (a, b) \<in> set xs \<and> x \<in> set (f a b))"
  by (induction xs) auto

lemma in_map_prod:
  "x \<in> set (map (\<lambda>(a, b). g a b) xs) \<longleftrightarrow> (\<exists>a b. (a, b) \<in> set xs \<and> x = g a b)"
  by (induction xs) auto

lemma format_regex_matches_iff:
  "(d, m, y, r) \<in> set (format_regex_matches s) \<longleftrightarrow>
     s = d @ 46 # m @ 46 # y @ r \<and> day_text d \<and> month_text m \<and> year_text y"
  unfolding format_regex_matches_def in_concat_map_prod in_map_prod
    re_match_iff lang_re_d lang_re_m lang_re_Y in_lang_Chr
  by auto

lemma dot_split_unique:
  "46 \<notin> set u \<Longrightarrow> 46 \<notin> set u' \<Longrightarrow> u @ 46 # v = u' @ 46 # v' \<Longrightarrow> u = u' \<and> v = v'"
proof (induction u arbitrary: u')
  case Nil
  then show ?case by (cases u') auto
next
  case (Cons a u)
  then show ?case by (cases u') auto
qed

lemma matches_unique:
  assumes "(d, m, y, r) \<in> set (format_regex_matches s)"
    and "(d', m', y', r') \<in> set (format_regex_matches s)"
  shows "(d', m', y', r') = (d, m, y, r)"
proof -
  from assms(1) have s1: "s = d @ 46 # (m @ 46 # y @ r)" and t1: "day_text d" "month_text m" "year_text y"
    by (simp_all add: format_regex_matches_iff)
  from assms(2) have s2: "s = d' @ 46 # (m' @ 46 # y' @ r')" and t2: "day_text d'" "month_text m'" "year_text y'"
    by (simp_all add: format_regex_matches_iff)
  from s1 s2 have "d @ 46 # (m @ 46 # y @ r) = d' @ 46 # (m' @ 46 # y' @ r')" by simp
  with t1(1) t2(1) have d: "d = d'" and rest: "m @ 46 # (y @ r) = m' @ 46 # (y' @ r')"
    using dot_split_unique [of d d'] day_text_no_dot by auto
  from rest t1(2) t2(2) have m: "m = m'" and rest2: "y @ r = y' @ r'"
    using dot_split_unique [of m m'] month_text_no_dot by auto
  from t1(3) t2(3) have "length y = length y'" by (simp add: year_text_def)
  with rest2 have "y = y' \<and> r = r'" by simp
  with d m show ?thesis by simp
qed

lemma format_regex_match_Some_iff:
  "format_regex_match s = Some (d, m, y, r) \<longleftrightarrow>
     s = d @ 46 # m @ 46 # y @ r \<and> day_text d \<and> month_text m \<and> year_text y"
proof
  assume "format_regex_match s = Some (d, m, y, r)"
  then have "(d, m, y, r) \<in> set (format_regex_matches s)"
    by (auto simp: format_regex_match_def split: list.splits)
  then show "s = d @ 46 # m @ 46 # y @ r \<and> day_text d \<and> month_text m \<and> year_text y"
    by (simp add: format_regex_matches_iff)
next
  assume "s = d @ 46 # m @ 46 # y @ r \<and> day_text d \<and> month_text m \<and> year_text y"
  then have mem: "(d, m, y, r) \<in> set (format_regex_matches s)"
    by (simp add: format_regex_matches_iff)
  then obtain x xs where xs: "format_regex_matches s = x # xs"
    by (cases "format_regex_matches s") auto
  obtain d' m' y' r' where x: "x = (d', m', y', r')"
    by (cases x) auto
  have "(d', m', y', r') \<in> set (format_regex_matches s)"
    by (simp add: xs x)
  from matches_unique [OF mem this] have "x = (d, m, y, r)"
    by (simp add: x)
  then show "format_regex_match s = Some (d, m, y, r)"
    by (simp add: format_regex_match_def xs)
qed

lemma format_regex_match_None_iff:
  "format_regex_match s = None \<longleftrightarrow>
     \<not> (\<exists>d m y r. s = d @ 46 # m @ 46 # y @ r \<and> day_text d \<and> month_text m \<and> year_text y)"
proof -
  have "format_regex_match s = None \<longleftrightarrow> \<not> (\<exists>d m y r. format_regex_match s = Some (d, m, y, r))"
    by (cases "format_regex_match s") auto
  then show ?thesis
    unfolding format_regex_match_Some_iff .
qed


lemma split_dot_not_Nil: "split_dot s \<noteq> []"
  by (induction s) auto

lemma split_dot_no_dot: "46 \<notin> set y \<Longrightarrow> split_dot y = [y]"
  by (induction y) auto

lemma split_dot_append: "46 \<notin> set d \<Longrightarrow> split_dot (d @ 46 # rest) = d # split_dot rest"
  by (induction d) auto

lemma split_dot_Cons:
  "split_dot s = f # fs \<Longrightarrow>
     46 \<notin> set f \<and> (if fs = [] then s = f else \<exists>rest. s = f @ 46 # rest \<and> split_dot rest = fs)"
proof (induction s arbitrary: f fs)
  case Nil
  then show ?case by simp
next
  case (Cons c cs)
  show ?case
  proof (cases "c = 46")
    case True
    with Cons.prems have "f = []" "fs = split_dot cs" by simp_all
    then show ?thesis using True split_dot_not_Nil by simp
  next
    case False
    obtain g gs where g: "split_dot cs = g # gs"
      using split_dot_not_Nil by (cases "split_dot cs") auto
    with Cons.prems False have f: "f = c # g" "fs = gs" by simp_all
    from Cons.IH [OF g] have "46 \<notin> set g"
      and "if gs = [] then cs = g else \<exists>rest. cs = g @ 46 # rest \<and> split_dot rest = gs"
      by simp_all
    then show ?thesis using f False by (auto split: if_splits)
  qed
qed

lemma split_dot3_iff:
  "split_dot s = [d, m, y] \<longleftrightarrow>
     s = d @ 46 # m @ 46 # y \<and> 46 \<notin> set d \<and> 46 \<notin> set m \<and> 46 \<notin> set y"
proof
  assume a: "split_dot s = [d, m, y]"
  from split_dot_Cons [OF a] obtain r1 where d: "46 \<notin> set d" and s: "s = d @ 46 # r1"
    and r1: "split_dot r1 = [m, y]" by auto
  from split_dot_Cons [OF r1] obtain r2 where m: "46 \<notin> set m" and r1': "r1 = m @ 46 # r2"
    and r2: "split_dot r2 = [y]" by auto
  from split_dot_Cons [OF r2] have "46 \<notin> set y" "r2 = y" by auto
  with d m s r1' show "s = d @ 46 # m @ 46 # y \<and> 46 \<notin> set d \<and> 46 \<notin> set m \<and> 46 \<notin> set y"
    by simp
next
  assume "s = d @ 46 # m @ 46 # y \<and> 46 \<notin> set d \<and> 46 \<notin> set m \<and> 46 \<notin> set y"
  then show "split_dot s = [d, m, y]"
    by (simp add: split_dot_append split_dot_no_dot)
qed

lemma format_regex_match_whole_iff:
  "format_regex_match s = Some (d, m, y, []) \<longleftrightarrow>
     split_dot s = [d, m, y] \<and> day_text d \<and> month_text m \<and> year_text y"
  unfolding format_regex_match_Some_iff split_dot3_iff
  using day_text_no_dot month_text_no_dot year_text_no_dot by auto

lemma matches_strptime_pattern_iff:
  "matches_strptime_pattern s \<longleftrightarrow> (\<exists>d m y. format_regex_match s = Some (d, m, y, []))"
proof
  assume "matches_strptime_pattern s"
  then obtain d m y where "split_dot s = [d, m, y]" "day_text d" "month_text m" "year_text y"
    by (auto simp: matches_strptime_pattern_def split: list.splits)
  then show "\<exists>d m y. format_regex_match s = Some (d, m, y, [])"
    using format_regex_match_whole_iff by blast
next
  assume "\<exists>d m y. format_regex_match s = Some (d, m, y, [])"
  then obtain d m y where "format_regex_match s = Some (d, m, y, [])" by blast
  then show "matches_strptime_pattern s"
    by (simp add: format_regex_match_whole_iff matches_strptime_pattern_def)
qed

lemma is_leap_eq: "is_leap y = leap_year y"
  by (simp add: is_leap_def leap_year_def)

lemma days_in_month_eq:
  assumes "1 \<le> m" "m \<le> 12"
  shows "days_in_month y m = month_length y m"
proof -
  from assms have "m = 1 \<or> m = 2 \<or> m = 3 \<or> m = 4 \<or> m = 5 \<or> m = 6 \<or> m = 7 \<or> m = 8 \<or> m = 9 \<or>
      m = 10 \<or> m = 11 \<or> m = 12"
    by arith
  then show ?thesis
    by (elim disjE) (simp_all add: days_in_month_def month_length_def DAYS_IN_MONTH_def is_leap_eq)
qed

lemma strptime_not_overflow: "strptime s \<noteq> Inl (OverflowError msg)"
  by (simp add: strptime_def split: option.splits prod.splits)

lemma strptime_Inr_iff:
  "strptime s = Inr dt \<longleftrightarrow>
     matches_strptime_pattern s \<and>
     (\<exists>y m d. date_fields s = Some (y, m, d) \<and> existing_date y m d \<and> dt = midnight (ymd2ord y m d))"
proof (cases "format_regex_match s")
  case None
  then have "\<not> matches_strptime_pattern s"
    by (simp add: matches_strptime_pattern_iff)
  moreover from None have "strptime s \<noteq> Inr dt"
    by (simp add: strptime_def)
  ultimately show ?thesis by simp
next
  case (Some found)
  obtain td tm ty r where found: "found = (td, tm, ty, r)"
    by (cases found) auto
  show ?thesis
  proof (cases "r = []")
    case False
    with Some found have "\<not> matches_strptime_pattern s"
      by (auto simp: matches_strptime_pattern_iff)
    moreover from Some found False have "strptime s \<noteq> Inr dt"
      by (simp add: strptime_def)
    ultimately show ?thesis by simp
  next
    case True
    with Some found have whole: "format_regex_match s = Some (td, tm, ty, [])"
      by simp
    then have sd: "split_dot s = [td, tm, ty]" and pat: "matches_strptime_pattern s"
      using matches_strptime_pattern_iff by (auto simp: format_regex_match_whole_iff)
    show ?thesis
    proof (cases "date_fields s")
      case None
      then have "strptime s \<noteq> Inr dt"
        using sd whole by (auto simp: strptime_def date_fields_def split: option.splits)
      with None show ?thesis by simp
    next
      case (Some ymd)
      obtain y m d where ymd: "ymd = (y, m, d)" by (cases ymd) auto
      from Some ymd sd have ints: "py_int ty = Some y" "py_int tm = Some m" "py_int td = Some d"
        by (auto simp: date_fields_def split: option.splits)
      have "strptime s = Inr dt \<longleftrightarrow> existing_date y m d \<and> dt = midnight (ymd2ord y m d)"
        using whole ints days_in_month_eq [of m y]
        by (auto simp: strptime_def existing_date_def MINYEAR_def MAXYEAR_def midnight_def)
      with Some ymd pat show ?thesis by simp
    qed
  qed
qed

lemma Birthday_cases:
  "Birthday s =
     (if matches_strptime_pattern s \<and> denotes_existing_date s then Inr (Field s)
      else Inl (ValueError ''Invalid birthday format. Use DD.MM.YYYY.''))"
proof (cases "strptime s")
  case (Inl e)
  then obtain msg where e: "e = ValueError msg"
    using strptime_not_overflow [of s] by (cases e) auto
  from Inl have "\<not> (matches_strptime_pattern s \<and> denotes_existing_date s)"
    using strptime_Inr_iff [of s] by (auto simp: denotes_existing_date_def split: option.splits)
  with Inl e show ?thesis by (simp add: Birthday_def)
next
  case (Inr dt)
  then have "matches_strptime_pattern s \<and> denotes_existing_date s"
    using strptime_Inr_iff [of s dt] by (auto simp: denotes_existing_date_def)
  with Inr show ?thesis by (simp add: Birthday_def)
qed

section \<open>The order of dates\<close>

text \<open>
  The day number grows strictly with the date, so that comparing day numbers is comparing
  year, month and day in that order.
\<close>

lemma div_pred:
  assumes "0 < (k::int)"
  shows "y div k = (y - 1) div k + (if y mod k = 0 then 1 else 0)"
proof -
  define q where "q = y div k"
  define r where "r = y mod k"
  have y: "y = q * k + r"
    by (simp add: q_def r_def)
  have r: "0 \<le> r" "r < k"
    using assms by (simp_all add: r_def)
  have k: "k \<noteq> 0" using assms by simp
  show ?thesis
  proof (cases "r = 0")
    case True
    have eq: "y - 1 = (k - 1) + (q - 1) * k"
      unfolding y True by (simp add: algebra_simps)
    have "(y - 1) div k = ((k - 1) + (q - 1) * k) div k"
      by (simp only: eq)
    also have "\<dots> = (q - 1) + (k - 1) div k"
      by (rule div_mult_self1 [OF k])
    also have "(k - 1) div k = 0"
      using assms by simp
    finally have "(y - 1) div k = q - 1" by simp
    with True show ?thesis by (simp add: q_def [symmetric] r_def [symmetric])
  next
    case False
    with r have r1: "0 \<le> r - 1" "r - 1 < k" by simp_all
    have eq: "y - 1 = (r - 1) + q * k"
      unfolding y by simp
    have "(y - 1) div k = ((r - 1) + q * k) div k"
      by (simp only: eq)
    also have "\<dots> = q + (r - 1) div k"
      by (rule div_mult_self1 [OF k])
    also have "(r - 1) div k = 0"
      using r1 by simp
    finally have "(y - 1) div k = q" by simp
    with False show ?thesis by (simp add: q_def [symmetric] r_def [symmetric])
  qed
qed

lemma days_before_year_Suc:
  "days_before_year (y + 1) = days_before_year y + 365 + (if leap_year y then 1 else 0)"
proof -
  define i4 :: int where "i4 = (if y mod 4 = 0 then 1 else 0)"
  define i100 :: int where "i100 = (if y mod 100 = 0 then 1 else 0)"
  define i400 :: int where "i400 = (if y mod 400 = 0 then 1 else 0)"
  have a: "y div 4 = (y - 1) div 4 + i4"
    unfolding i4_def by (rule div_pred) simp
  have b: "y div 100 = (y - 1) div 100 + i100"
    unfolding i100_def by (rule div_pred) simp
  have c: "y div 400 = (y - 1) div 400 + i400"
    unfolding i400_def by (rule div_pred) simp
  have d: "y mod 100 = 0" if "y mod 400 = 0"
  proof -
    have "y mod 100 = (y mod 400) mod 100" by (simp add: mod_mod_cancel)
    with that show ?thesis by simp
  qed
  have e: "y mod 4 = 0" if "y mod 100 = 0"
  proof -
    have "y mod 4 = (y mod 100) mod 4" by (simp add: mod_mod_cancel)
    with that show ?thesis by simp
  qed
  have ind: "i4 - i100 + i400 = (if leap_year y then 1 else 0)"
  proof (cases "y mod 400 = 0")
    case True
    with d e have "y mod 100 = 0" "y mod 4 = 0" by simp_all
    with True show ?thesis by (simp add: leap_year_def i4_def i100_def i400_def)
  next
    case n400: False
    show ?thesis
    proof (cases "y mod 100 = 0")
      case True
      with e have "y mod 4 = 0" by simp
      with True n400 show ?thesis by (simp add: leap_year_def i4_def i100_def i400_def)
    next
      case False
      with n400 show ?thesis by (simp add: leap_year_def i4_def i100_def i400_def)
    qed
  qed
  have "days_before_year (y + 1) = y * 365 + y div 4 - y div 100 + y div 400"
    by (simp add: days_before_year_def)
  also have "\<dots> = days_before_year y + 365 + (i4 - i100 + i400)"
    unfolding a b c by (simp add: days_before_year_def Let_def algebra_simps)
  finally show ?thesis
    unfolding ind .
qed

lemma days_before_year_mono: "y \<le> y' \<Longrightarrow> days_before_year y \<le> days_before_year y'"
proof (induction y' rule: int_ge_induct)
  case base
  show ?case by simp
next
  case (step i)
  then show ?case using days_before_year_Suc [of i] by (simp split: if_splits)
qed


lemma month_cases:
  "1 \<le> m \<Longrightarrow> m \<le> 12 \<Longrightarrow>
     m = 1 \<or> m = 2 \<or> m = 3 \<or> m = 4 \<or> m = 5 \<or> m = 6 \<or> m = 7 \<or> m = 8 \<or> m = 9 \<or>
     m = 10 \<or> m = 11 \<or> m = (12::int)"
  by arith

lemma days_before_next_month:
  assumes "1 \<le> m" "m \<le> 11"
  shows "days_before_month y (m + 1) = days_before_month y m + month_length y m"
proof -
  from assms have "m = 1 \<or> m = 2 \<or> m = 3 \<or> m = 4 \<or> m = 5 \<or> m = 6 \<or> m = 7 \<or> m = 8 \<or> m = 9 \<or>
     m = 10 \<or> m = 11" by arith
  then show ?thesis
    by (elim disjE)
      (simp_all add: days_before_month_def DAYS_BEFORE_MONTH_def month_length_def is_leap_eq)
qed

lemma days_before_month_year_end:
  "days_before_month y 12 + month_length y 12 = 365 + (if leap_year y then 1 else 0)"
  by (simp add: days_before_month_def DAYS_BEFORE_MONTH_def month_length_def is_leap_eq)

lemma month_length_pos: "0 < month_length y m"
  by (simp add: month_length_def)

lemma days_before_month_mono:
  assumes "1 \<le> m" "m \<le> m'" "m' \<le> 12"
  shows "days_before_month y m \<le> days_before_month y m'"
proof -
  have "nat (m' - m) = k \<Longrightarrow> 1 \<le> m \<Longrightarrow> m \<le> m' \<Longrightarrow> m' \<le> 12 \<Longrightarrow>
      days_before_month y m \<le> days_before_month y m'" for k
  proof (induction k arbitrary: m')
    case 0
    then show ?case by simp
  next
    case (Suc k)
    then have a: "nat (m' - 1 - m) = k" "1 \<le> m" "m \<le> m' - 1" "m' - 1 \<le> 12" "1 \<le> m' - 1" "m' - 1 \<le> 11"
      by auto
    from Suc.IH [OF a(1-4)] have "days_before_month y m \<le> days_before_month y (m' - 1)" .
    also have "\<dots> \<le> days_before_month y (m' - 1 + 1)"
      using days_before_next_month [OF a(5,6), of y] month_length_pos [of y "m' - 1"] by simp
    finally show ?case by simp
  qed
  with assms show ?thesis by blast
qed

lemma ymd2ord_strict_mono:
  assumes "existing_date y m d" and "existing_date y' m' d'"
    and "y < y' \<or> (y = y' \<and> (m < m' \<or> (m = m' \<and> d < d')))"
  shows "ymd2ord y m d < ymd2ord y' m' d'"
proof -
  from assms(1) have v: "1 \<le> m" "m \<le> 12" "1 \<le> d" "d \<le> month_length y m"
    by (simp_all add: existing_date_def)
  from assms(2) have v': "1 \<le> m'" "m' \<le> 12" "1 \<le> d'" "d' \<le> month_length y' m'"
    by (simp_all add: existing_date_def)
  have month_end: "days_before_month y m + d \<le> days_before_month y m + month_length y m"
    using v by simp
  have year_end: "days_before_month y m + month_length y m \<le> 365 + (if leap_year y then 1 else 0)"
  proof (cases "m = 12")
    case True
    then show ?thesis using days_before_month_year_end [of y] by simp
  next
    case False
    with v have m11: "m \<le> 11" by simp
    then have "days_before_month y m + month_length y m = days_before_month y (m + 1)"
      using days_before_next_month [OF v(1) m11, of y] by simp
    also have "\<dots> \<le> days_before_month y 12"
      using days_before_month_mono [of "m + 1" 12 y] v m11 by simp
    also have "\<dots> \<le> 365 + (if leap_year y then 1 else 0)"
      using days_before_month_year_end [of y] month_length_pos [of y 12] by simp
    finally show ?thesis .
  qed
  have first_day: "0 \<le> days_before_month y' m'"
    using days_before_month_mono [of 1 m' y'] v'
    by (simp add: days_before_month_def DAYS_BEFORE_MONTH_def)
  from assms(3) consider "y < y'" | "y = y'" "m < m'" | "y = y'" "m = m'" "d < d'"
    by blast
  then show ?thesis
  proof cases
    case 1
    then have "days_before_year (y + 1) \<le> days_before_year y'"
      using days_before_year_mono [of "y + 1" y'] by simp
    with month_end year_end first_day v'(3) show ?thesis
      unfolding ymd2ord_def days_before_year_Suc by simp
  next
    case 2
    then have "m \<le> 11" using v' by simp
    then have "days_before_month y m + month_length y m = days_before_month y (m + 1)"
      using days_before_next_month [OF v(1), of y] by simp
    also have "\<dots> \<le> days_before_month y m'"
      using days_before_month_mono [of "m + 1" m' y] v v' 2 by simp
    finally show ?thesis
      using month_end v'(3) 2 unfolding ymd2ord_def by simp
  next
    case 3
    then show ?thesis unfolding ymd2ord_def by simp
  qed
qed

section \<open>Birthdays\<close>

lemma decimal_value_ascii: "ascii_digit c \<Longrightarrow> decimal_value c = int c - 48"
  by (auto simp: decimal_value_def Nd_starts_def in_run_def ascii_digit_def)

lemma py_int_ascii2:
  "ascii_digit a \<Longrightarrow> ascii_digit b \<Longrightarrow> py_int [a, b] = Some (10 * (int a - 48) + (int b - 48))"
  by (simp add: py_int_def strip_def isdecimal_cp_ascii decimal_value_ascii) (simp add: ascii_digit_def)

lemma month_length_le_31: "month_length y m \<le> 31"
  by (simp add: month_length_def)

lemma list_all_ascii_decimal: "list_all ascii_digit s \<Longrightarrow> list_all isdecimal_cp s"
  by (induction s) (auto simp: isdecimal_cp_ascii)

lemma length2E: "length d = 2 \<Longrightarrow> \<exists>a b. d = [a, b]"
  by (auto simp: length_Suc_conv numeral_eq_Suc)

lemma strict_imp_strptime_pattern:
  assumes "matches_DD_MM_YYYY s" and "denotes_existing_date s"
  shows "matches_strptime_pattern s"
proof -
  from assms(1) obtain d m y where sd: "split_dot s = [d, m, y]"
    and d: "length d = 2" "list_all ascii_digit d"
    and m: "length m = 2" "list_all ascii_digit m"
    and y: "length y = 4" "list_all ascii_digit y"
    by (auto simp: matches_DD_MM_YYYY_def split: list.splits)
  from d obtain d1 d2 where d12: "d = [d1, d2]" "ascii_digit d1" "ascii_digit d2"
    using length2E [of d] by auto
  from m obtain m1 m2 where m12: "m = [m1, m2]" "ascii_digit m1" "ascii_digit m2"
    using length2E [of m] by auto
  have pd: "py_int d = Some (10 * (int d1 - 48) + (int d2 - 48))"
    using d12 by (simp add: py_int_ascii2)
  have pm: "py_int m = Some (10 * (int m1 - 48) + (int m2 - 48))"
    using m12 by (simp add: py_int_ascii2)
  from assms(2) sd pd pm obtain yy where
    ex: "existing_date yy (10 * (int m1 - 48) + (int m2 - 48)) (10 * (int d1 - 48) + (int d2 - 48))"
    by (auto simp: denotes_existing_date_def date_fields_def split: option.splits)
  then have mm: "1 \<le> 10 * (int m1 - 48) + (int m2 - 48)" "10 * (int m1 - 48) + (int m2 - 48) \<le> 12"
    and dd: "1 \<le> 10 * (int d1 - 48) + (int d2 - 48)" "10 * (int d1 - 48) + (int d2 - 48) \<le> 31"
    using month_length_le_31 [of yy "10 * (int m1 - 48) + (int m2 - 48)"]
    by (auto simp: existing_date_def)
  have "month_text m"
    using mm m12 unfolding month_text_cases ascii_digit_def by auto
  moreover have "day_text d"
    using dd d12 isdecimal_cp_ascii [of d2] unfolding day_text_cases ascii_digit_def by auto
  moreover have "year_text y"
    using y by (simp add: year_text_def list_all_ascii_decimal)
  ultimately show ?thesis
    using sd by (simp add: matches_strptime_pattern_def)
qed

lemmas date_text_eval =
  matches_DD_MM_YYYY_def matches_strptime_pattern_def denotes_existing_date_def date_fields_def
  day_text_def month_text_def year_text_def ascii_digit_def
  py_int_def strip_def isdecimal_cp_def decimal_value_def Nd_starts_def in_run_def
  existing_date_def month_length_def leap_year_def lit_def

text \<open>
  The string \<open>1.3.1990\<close>, with neither day nor month padded to two digits, is not of the
  form DD.MM.YYYY, and \<open>Birthday\<close> accepts it: \<open>%d\<close> and \<open>%m\<close> match one digit as well as two.
\<close>

theorem Birthday_unpadded_counterexample:
  "\<not> matches_DD_MM_YYYY (lit ''1.3.1990'')
   \<and> Birthday (lit ''1.3.1990'') = Inr (Field (lit ''1.3.1990''))"
  by (simp add: Birthday_cases date_text_eval)

text \<open>
  C3, as the code has it. The form that \<open>%d.%m.%Y\<close> accepts is \<open>matches_strptime_pattern\<close>:
  three fields with dots between and nothing before or after; a day from 1 to 31 of one
  digit, or of two, where a zero or a blank may stand for the tens; a month from 1 to 12 of
  one digit, or of two, where a zero may stand for the tens; a year of four digits. The
  digits are the ASCII digits, except that the second digit of a day from 10 to 29 and each
  digit of the year may be any decimal digit of Unicode (category Nd: fullwidth,
  Arabic-Indic and so on). \<open>Birthday\<close> refuses, with the \<open>ValueError\<close> of its constructor,
  every string that is not of this form or whose fields are not a day of the calendar in
  the years 1 to 9999; it accepts every other string; and it accepts 29 February 2024, a
  leap day.
\<close>

theorem Birthday_rejects:
  "(\<not> (matches_strptime_pattern s \<and> denotes_existing_date s) \<longrightarrow>
      Birthday s = Inl (ValueError ''Invalid birthday format. Use DD.MM.YYYY.''))
   \<and> (matches_strptime_pattern s \<and> denotes_existing_date s \<longrightarrow> Birthday s = Inr (Field s))
   \<and> Birthday (lit ''29.02.2024'') = Inr (Field (lit ''29.02.2024''))"
proof (intro conjI impI)
  assume "\<not> (matches_strptime_pattern s \<and> denotes_existing_date s)"
  then show "Birthday s = Inl (ValueError ''Invalid birthday format. Use DD.MM.YYYY.'')"
    by (simp add: Birthday_cases)
next
  assume "matches_strptime_pattern s \<and> denotes_existing_date s"
  then show "Birthday s = Inr (Field s)"
    by (simp add: Birthday_cases)
next
  have "matches_strptime_pattern (lit ''29.02.2024'') \<and> denotes_existing_date (lit ''29.02.2024'')"
    by (simp add: date_text_eval)
  then show "Birthday (lit ''29.02.2024'') = Inr (Field (lit ''29.02.2024''))"
    by (simp add: Birthday_cases)
qed

text \<open>
  Among the strings refused: three days that no calendar has, a date in another format,
  and a date followed by a blank. Among those accepted: a date whose year is written in
  fullwidth digits (U+FF12 U+FF10 U+FF12 U+FF14), and the thirteenth of a month written
  with an Arabic-Indic three (U+0663).
\<close>

theorem Birthday_rejects_witness:
  "Birthday (lit ''30.02.2024'') = Inl (ValueError ''Invalid birthday format. Use DD.MM.YYYY.'')
   \<and> Birthday (lit ''31.04.2023'') = Inl (ValueError ''Invalid birthday format. Use DD.MM.YYYY.'')
   \<and> Birthday (lit ''29.02.2023'') = Inl (ValueError ''Invalid birthday format. Use DD.MM.YYYY.'')
   \<and> Birthday (lit ''1990-03-01'') = Inl (ValueError ''Invalid birthday format. Use DD.MM.YYYY.'')
   \<and> Birthday (lit ''01.03.1990 '') = Inl (ValueError ''Invalid birthday format. Use DD.MM.YYYY.'')
   \<and> Birthday (lit ''01.01.'' @ [65298, 65296, 65298, 65300])
       = Inr (Field (lit ''01.01.'' @ [65298, 65296, 65298, 65300]))
   \<and> Birthday ([49, 1635] @ lit ''.03.1990'') = Inr (Field ([49, 1635] @ lit ''.03.1990''))"
proof -
  have n1: "\<not> (matches_strptime_pattern (lit ''30.02.2024'') \<and> denotes_existing_date (lit ''30.02.2024''))"
    by (simp add: date_text_eval)
  have n2: "\<not> (matches_strptime_pattern (lit ''31.04.2023'') \<and> denotes_existing_date (lit ''31.04.2023''))"
    by (simp add: date_text_eval)
  have n3: "\<not> (matches_strptime_pattern (lit ''29.02.2023'') \<and> denotes_existing_date (lit ''29.02.2023''))"
    by (simp add: date_text_eval)
  have n4: "\<not> (matches_strptime_pattern (lit ''1990-03-01'') \<and> denotes_existing_date (lit ''1990-03-01''))"
    by (simp add: date_text_eval)
  have n5: "\<not> (matches_strptime_pattern (lit ''01.03.1990 '') \<and> denotes_existing_date (lit ''01.03.1990 ''))"
    by (simp add: date_text_eval)
  have p1: "matches_strptime_pattern (lit ''01.01.'' @ [65298, 65296, 65298, 65300])
      \<and> denotes_existing_date (lit ''01.01.'' @ [65298, 65296, 65298, 65300])"
    by (simp add: date_text_eval)
  have p2: "matches_strptime_pattern ([49, 1635] @ lit ''.03.1990'')
      \<and> denotes_existing_date ([49, 1635] @ lit ''.03.1990'')"
    by (simp add: date_text_eval)
  note r = Birthday_rejects [THEN conjunct1, rule_format]
  note a = Birthday_rejects [THEN conjunct2, THEN conjunct1, rule_format]
  show ?thesis
    by (intro conjI) (rule r [OF n1] r [OF n2] r [OF n3] r [OF n4] r [OF n5] a [OF p1] a [OF p2])+
qed

text \<open>
  C9: a string of the exact form DD.MM.YYYY whose fields are a day of the calendar is
  accepted by \<open>Birthday\<close>, and the field built renders back to the same string.
\<close>

theorem Birthday_roundtrip:
  "matches_DD_MM_YYYY s \<Longrightarrow> denotes_existing_date s \<Longrightarrow>
     \<exists>b. Birthday s = Inr b \<and> str_Field b = s"
  using strict_imp_strptime_pattern [of s] by (simp add: Birthday_cases str_Field_def)

theorem Birthday_roundtrip_witness:
  "\<exists>b. Birthday (lit ''29.02.2024'') = Inr b \<and> str_Field b = lit ''29.02.2024''"
proof -
  have "matches_DD_MM_YYYY (lit ''29.02.2024'')" and "denotes_existing_date (lit ''29.02.2024'')"
    by (simp_all add: date_text_eval)
  then show ?thesis by (rule Birthday_roundtrip)
qed

section \<open>Dictionaries\<close>

text \<open>The keys of a dictionary stay distinct under assignment and deletion.\<close>

lemma dict_setitem_keys:
  "map fst (dict_setitem k v d) = (if k \<in> set (map fst d) then map fst d else map fst d @ [k])"
proof (induction d)
  case Nil
  show ?case by simp
next
  case (Cons p d)
  obtain k' v' where p: "p = (k', v')" by (cases p) auto
  show ?case
  proof (cases "k' = k")
    case True
    with p show ?thesis by simp
  next
    case False
    with p Cons.IH show ?thesis by simp
  qed
qed

lemma dict_setitem_distinct: "distinct (map fst d) \<Longrightarrow> distinct (map fst (dict_setitem k v d))"
  by (simp add: dict_setitem_keys)

lemma dict_delitem_set: "set (dict_delitem k d) \<subseteq> set d"
  by (induction d) (auto split: if_splits)

lemma dict_delitem_distinct: "distinct (map fst d) \<Longrightarrow> distinct (map fst (dict_delitem k d))"
proof (induction d)
  case Nil
  show ?case by simp
next
  case (Cons p d)
  obtain k' v' where p: "p = (k', v')" by (cases p) auto
  have "fst ` set (dict_delitem k d) \<subseteq> fst ` set d"
    using dict_delitem_set [of k d] by blast
  with Cons p show ?case by auto
qed

section \<open>Birthdays of the coming week\<close>

text \<open>
  Every birthday that \<open>add_birthday\<close> stores was accepted by \<open>Birthday\<close>, and adding or
  deleting records keeps this true of the book.
\<close>

lemma Birthday_val: "Birthday s = Inr b \<Longrightarrow> b = Field s"
  by (auto simp: Birthday_def split: sum.splits error.splits)

lemma add_birthday_valid:
  assumes "add_birthday s r = (Inr (), r')"
  shows "\<exists>b. birthday r' = Some b \<and> Birthday (val b) = Inr b"
proof -
  from assms obtain b where b: "Birthday s = Inr b" and r': "r' = r\<lparr>birthday := Some b\<rparr>"
    by (auto simp: add_birthday_def split: sum.splits)
  from b have "b = Field s" by (rule Birthday_val)
  with b r' show ?thesis by simp
qed

lemma birthdays_valid_add_record:
  assumes "birthdays_valid book"
    and "case birthday r of None \<Rightarrow> True | Some b \<Rightarrow> Birthday (val b) = Inr b"
  shows "birthdays_valid (add_record r book)"
proof -
  have "list_all P d \<Longrightarrow> P (k, r) \<Longrightarrow> list_all P (dict_setitem k r d)"
    for P and k :: pystr and d
    by (induction d) auto
  from this [of _ "data book" "val (name r)"] assms show ?thesis
    by (simp add: birthdays_valid_def add_record_def)
qed

lemma birthdays_valid_delete: "birthdays_valid book \<Longrightarrow> birthdays_valid (delete nm book)"
  using dict_delitem_set [of nm "data book"]
  by (auto simp: birthdays_valid_def delete_def list_all_iff)

lemma Birthday_valid_parse:
  assumes "Birthday (val b) = Inr b"
  shows "\<exists>n. strptime (val b) = Inr (midnight n) \<and> birthday_date b = Some n"
proof -
  from assms obtain dt where dt: "strptime (val b) = Inr dt"
    by (auto simp: Birthday_def split: sum.splits error.splits)
  then obtain y m d where "date_fields (val b) = Some (y, m, d)" "dt = midnight (ymd2ord y m d)"
    using strptime_Inr_iff [of "val b" dt] by blast
  with dt show ?thesis by (simp add: birthday_date_def)
qed

lemma datetime_le_start:
  "datetime_le (ref\<lparr>ordinal := a\<rparr>) (midnight n) \<longleftrightarrow> a < n \<or> (a = n \<and> at_midnight ref)"
  by (auto simp: datetime_le_def midnight_def at_midnight_def)

lemma datetime_le_end:
  "datetime_le (midnight n) (ref\<lparr>ordinal := a\<rparr>) \<longleftrightarrow> n \<le> a"
  by (auto simp: datetime_le_def midnight_def)

lemma birthdays_loop_eq:
  assumes "list_all (\<lambda>(nm, r). case birthday r of None \<Rightarrow> True | Some b \<Rightarrow> Birthday (val b) = Inr b) items"
  shows "birthdays_loop (today\<lparr>ordinal := windowStart today\<rparr>) (today\<lparr>ordinal := windowEnd today\<rparr>) items acc
    = Inr (acc @ concat (map (\<lambda>(nm, r).
        case birthday r of
          None \<Rightarrow> []
        | Some b \<Rightarrow> if in_window today b then [nm @ lit '': '' @ val b] else []) items))"
  using assms
proof (induction items arbitrary: acc)
  case Nil
  then show ?case by simp
next
  case (Cons item items)
  obtain nm r where item: "item = (nm, r)" by (cases item) auto
  from Cons.prems have rest: "list_all (\<lambda>(nm, r). case birthday r of None \<Rightarrow> True | Some b \<Rightarrow> Birthday (val b) = Inr b) items"
    by simp
  note IH = Cons.IH [OF rest]
  show ?case
  proof (cases "birthday r")
    case None
    then show ?thesis using IH item by simp
  next
    case (Some b)
    with Cons.prems item have "Birthday (val b) = Inr b" by simp
    from Birthday_valid_parse [OF this] obtain n
      where n: "strptime (val b) = Inr (midnight n)" "birthday_date b = Some n" by blast
    have "datetime_le (today\<lparr>ordinal := windowStart today\<rparr>) (midnight n) \<and>
          datetime_le (midnight n) (today\<lparr>ordinal := windowEnd today\<rparr>) \<longleftrightarrow> in_window today b"
      by (simp add: datetime_le_start datetime_le_end in_window_def n)
    then show ?thesis using IH item Some n
      by (simp add: str_Field_def)
  qed
qed

lemma get_birthdays_per_week_eq:
  assumes "window_in_range today" and "birthdays_valid book"
  shows "get_birthdays_per_week today book = (Inr (upcoming (in_window today) book), book)"
proof -
  from assms(1) have r: "0 < windowStart today" "windowStart today + 6 \<le> MAXORDINAL"
    by (simp_all add: window_in_range_def windowEnd_def)
  have s: "add_days today ((6 - weekday today) + 7) = Inr (today\<lparr>ordinal := windowStart today\<rparr>)"
    using r by (simp add: add_days_def windowStart_def daysUntilNextMonday_def)
  have e: "add_days (today\<lparr>ordinal := windowStart today\<rparr>) 6 = Inr (today\<lparr>ordinal := windowEnd today\<rparr>)"
    using r by (simp add: add_days_def windowEnd_def)
  have "get_birthdays_per_week today book =
      (birthdays_loop (today\<lparr>ordinal := windowStart today\<rparr>) (today\<lparr>ordinal := windowEnd today\<rparr>)
         (data book) [], book)"
    unfolding get_birthdays_per_week_def s by (simp add: e)
  then show ?thesis
    using assms(2) birthdays_loop_eq [of "data book" today "[]"]
    by (simp add: upcoming_def birthdays_valid_def)
qed

text \<open>
  Whatever the day of the reference, the first day of the window is a Sunday (weekday 6):
  \<open>6 - weekday\<close> days lead to the Sunday of the current week, seven more to the next.
\<close>

lemma windowStart_is_sunday: "(windowStart today + 6) mod 7 = 6"
  unfolding windowStart_def daysUntilNextMonday_def weekday_def by presburger

lemmas window_eval =
  windowStart_def windowEnd_def daysUntilNextMonday_def weekday_def window_in_range_def
  at_midnight_def MAXORDINAL_def ymd2ord_def days_before_year_def days_before_month_def
  DAYS_BEFORE_MONTH_def is_leap_def birthday_date_def in_window_def in_window_by_date_def
  upcoming_def birthdays_valid_def

text \<open>
  What the function computes. The reference is the date and time that the clock gives.
  When the window stays within the dates that can be represented and every birthday in the
  book was built by \<open>Birthday\<close>, the function returns, in the order of the dictionary, the
  line \<open>name: birthday\<close> of the records that have a birthday whose date \<open>n\<close>, year included,
  satisfies \<open>windowStart < n \<le> windowEnd\<close>, or \<open>n = windowStart\<close> when the reference is at
  midnight. So the last day of the window always counts, and the first day counts only
  when the clock reads midnight exactly.
\<close>

lemma get_birthdays_per_week_window:
  "window_in_range today \<Longrightarrow> birthdays_valid book \<Longrightarrow>
     fst (get_birthdays_per_week today book) = Inr (upcoming (in_window today) book)"
  by (simp add: get_birthdays_per_week_eq)

lemma get_birthdays_per_week_window_example:
  "fst (get_birthdays_per_week
      \<lparr>ordinal = ymd2ord 2024 1 3, hour = 10, minute = 0, second = 0, microsecond = 0\<rparr>
      \<lparr>data =
        [(lit ''Ann'', \<lparr>name = Name (lit ''Ann''), phones = [], birthday = Some (Field (lit ''14.01.2024''))\<rparr>),
         (lit ''Bob'', \<lparr>name = Name (lit ''Bob''), phones = [], birthday = Some (Field (lit ''15.01.2024''))\<rparr>),
         (lit ''Cid'', \<lparr>name = Name (lit ''Cid''), phones = [], birthday = None\<rparr>),
         (lit ''Dan'', \<lparr>name = Name (lit ''Dan''), phones = [], birthday = Some (Field (lit ''20.01.2024''))\<rparr>),
         (lit ''Eve'', \<lparr>name = Name (lit ''Eve''), phones = [], birthday = Some (Field (lit ''15.01.1990''))\<rparr>)]\<rparr>)
   = Inr [lit ''Bob: 15.01.2024'', lit ''Dan: 20.01.2024'']"
proof -
  define today where "today = \<lparr>ordinal = ymd2ord 2024 1 3, hour = 10, minute = 0, second = 0, microsecond = 0\<rparr>"
  define book where "book = \<lparr>data =
        [(lit ''Ann'', \<lparr>name = Name (lit ''Ann''), phones = [], birthday = Some (Field (lit ''14.01.2024''))\<rparr>),
         (lit ''Bob'', \<lparr>name = Name (lit ''Bob''), phones = [], birthday = Some (Field (lit ''15.01.2024''))\<rparr>),
         (lit ''Cid'', \<lparr>name = Name (lit ''Cid''), phones = [], birthday = None\<rparr>),
         (lit ''Dan'', \<lparr>name = Name (lit ''Dan''), phones = [], birthday = Some (Field (lit ''20.01.2024''))\<rparr>),
         (lit ''Eve'', \<lparr>name = Name (lit ''Eve''), phones = [], birthday = Some (Field (lit ''15.01.1990''))\<rparr>)]\<rparr>"
  have d: "date_fields (lit ''14.01.2024'') = Some (2024, 1, 14)"
    "date_fields (lit ''15.01.2024'') = Some (2024, 1, 15)"
    "date_fields (lit ''20.01.2024'') = Some (2024, 1, 20)"
    "date_fields (lit ''15.01.1990'') = Some (1990, 1, 15)"
    by (simp_all add: date_text_eval)
  have b: "Birthday (lit ''14.01.2024'') = Inr (Field (lit ''14.01.2024''))"
    "Birthday (lit ''15.01.2024'') = Inr (Field (lit ''15.01.2024''))"
    "Birthday (lit ''20.01.2024'') = Inr (Field (lit ''20.01.2024''))"
    "Birthday (lit ''15.01.1990'') = Inr (Field (lit ''15.01.1990''))"
    by (simp_all add: Birthday_cases) (simp_all add: date_text_eval)
  have v: "birthdays_valid book"
    by (simp add: book_def birthdays_valid_def b)
  have w: "window_in_range today"
    by (simp add: today_def window_eval)
  have "upcoming (in_window today) book = [lit ''Bob: 15.01.2024'', lit ''Dan: 20.01.2024'']"
    by (simp add: today_def book_def d window_eval) (simp add: lit_def)
  with get_birthdays_per_week_window [OF w v] show ?thesis
    by (simp add: today_def book_def)
qed

text \<open>
  When the clock reads midnight exactly, the result is the one the calendar dates give:
  both ends of the window included.
\<close>

lemma in_window_at_midnight: "at_midnight today \<Longrightarrow> in_window today = in_window_by_date today"
  by (rule ext) (auto simp: in_window_def in_window_by_date_def split: option.splits)

lemma get_birthdays_per_week_at_midnight:
  "window_in_range today \<Longrightarrow> birthdays_valid book \<Longrightarrow> at_midnight today \<Longrightarrow>
     get_birthdays_per_week today book = (Inr (upcoming (in_window_by_date today) book), book)"
  by (simp add: get_birthdays_per_week_eq in_window_at_midnight)

text \<open>
  C1: the code writes both bounds of the window as included
  (\<open>next_week_start <= birth_date <= next_week_end\<close>, the end six days after the start), as
  the claim says, but the bounds keep the time of day of \<open>datetime.today()\<close> while a birthday
  is parsed at midnight. On Wednesday 3 January 2024 the window, in calendar days, runs
  from 14 to 20 January. With birthdays on 14 and on 20 January 2024 in the book, the call
  at ten in the morning lists only the one of 20 January, where the claim lists both; the
  same call at midnight lists both.
\<close>

theorem get_birthdays_first_day_dropped:
  "get_birthdays_per_week
      \<lparr>ordinal = ymd2ord 2024 1 3, hour = 10, minute = 0, second = 0, microsecond = 0\<rparr>
      \<lparr>data =
        [(lit ''Ann'', \<lparr>name = Name (lit ''Ann''), phones = [], birthday = Some (Field (lit ''14.01.2024''))\<rparr>),
         (lit ''Dan'', \<lparr>name = Name (lit ''Dan''), phones = [], birthday = Some (Field (lit ''20.01.2024''))\<rparr>)]\<rparr>
     = (Inr [lit ''Dan: 20.01.2024''],
        \<lparr>data =
        [(lit ''Ann'', \<lparr>name = Name (lit ''Ann''), phones = [], birthday = Some (Field (lit ''14.01.2024''))\<rparr>),
         (lit ''Dan'', \<lparr>name = Name (lit ''Dan''), phones = [], birthday = Some (Field (lit ''20.01.2024''))\<rparr>)]\<rparr>)
   \<and> upcoming (in_window_by_date
        \<lparr>ordinal = ymd2ord 2024 1 3, hour = 10, minute = 0, second = 0, microsecond = 0\<rparr>)
        \<lparr>data =
        [(lit ''Ann'', \<lparr>name = Name (lit ''Ann''), phones = [], birthday = Some (Field (lit ''14.01.2024''))\<rparr>),
         (lit ''Dan'', \<lparr>name = Name (lit ''Dan''), phones = [], birthday = Some (Field (lit ''20.01.2024''))\<rparr>)]\<rparr>
     = [lit ''Ann: 14.01.2024'', lit ''Dan: 20.01.2024'']
   \<and> get_birthdays_per_week
      \<lparr>ordinal = ymd2ord 2024 1 3, hour = 0, minute = 0, second = 0, microsecond = 0\<rparr>
      \<lparr>data =
        [(lit ''Ann'', \<lparr>name = Name (lit ''Ann''), phones = [], birthday = Some (Field (lit ''14.01.2024''))\<rparr>),
         (lit ''Dan'', \<lparr>name = Name (lit ''Dan''), phones = [], birthday = Some (Field (lit ''20.01.2024''))\<rparr>)]\<rparr>
     = (Inr [lit ''Ann: 14.01.2024'', lit ''Dan: 20.01.2024''],
        \<lparr>data =
        [(lit ''Ann'', \<lparr>name = Name (lit ''Ann''), phones = [], birthday = Some (Field (lit ''14.01.2024''))\<rparr>),
         (lit ''Dan'', \<lparr>name = Name (lit ''Dan''), phones = [], birthday = Some (Field (lit ''20.01.2024''))\<rparr>)]\<rparr>)"
proof -
  define today where "today = \<lparr>ordinal = ymd2ord 2024 1 3, hour = 10, minute = 0, second = 0, microsecond = 0\<rparr>"
  define today0 where "today0 = \<lparr>ordinal = ymd2ord 2024 1 3, hour = 0, minute = 0, second = 0, microsecond = 0\<rparr>"
  define book where "book = \<lparr>data =
        [(lit ''Ann'', \<lparr>name = Name (lit ''Ann''), phones = [], birthday = Some (Field (lit ''14.01.2024''))\<rparr>),
         (lit ''Dan'', \<lparr>name = Name (lit ''Dan''), phones = [], birthday = Some (Field (lit ''20.01.2024''))\<rparr>)]\<rparr>"
  have d: "date_fields (lit ''14.01.2024'') = Some (2024, 1, 14)"
    "date_fields (lit ''20.01.2024'') = Some (2024, 1, 20)"
    by (simp_all add: date_text_eval)
  have b: "Birthday (lit ''14.01.2024'') = Inr (Field (lit ''14.01.2024''))"
    "Birthday (lit ''20.01.2024'') = Inr (Field (lit ''20.01.2024''))"
    by (simp_all add: Birthday_cases) (simp_all add: date_text_eval)
  have v: "birthdays_valid book"
    by (simp add: book_def birthdays_valid_def b)
  have w: "window_in_range today" and w0: "window_in_range today0"
    by (simp_all add: today_def today0_def window_eval)
  have "upcoming (in_window today) book = [lit ''Dan: 20.01.2024'']"
    by (simp add: today_def book_def d window_eval) (simp add: lit_def)
  moreover have "upcoming (in_window_by_date today) book = [lit ''Ann: 14.01.2024'', lit ''Dan: 20.01.2024'']"
    by (simp add: today_def book_def d window_eval) (simp add: lit_def)
  moreover have "upcoming (in_window today0) book = [lit ''Ann: 14.01.2024'', lit ''Dan: 20.01.2024'']"
    by (simp add: today0_def book_def d window_eval) (simp add: lit_def)
  ultimately show ?thesis
    using get_birthdays_per_week_eq [OF w v] get_birthdays_per_week_eq [OF w0 v]
    by (simp add: today_def today0_def book_def)
qed

text \<open>
  C10: \<open>get_birthdays_per_week\<close> leaves the book as it was, whatever it returns, an error
  included: the mapping, and with it every record's name, phones and birthday.
\<close>

theorem get_birthdays_read_only:
  "snd (get_birthdays_per_week today book) = book"
  by (simp add: get_birthdays_per_week_def split: sum.splits)

section \<open>Lookup, insertion and deletion\<close>

lemma dict_get_setitem: "dict_get k (dict_setitem k v d) = Some v"
  by (induction d) auto

lemma dict_setitem_twice: "dict_setitem k v2 (dict_setitem k v1 d) = dict_setitem k v2 d"
  by (induction d) auto

lemma dict_get_None_iff: "dict_get k d = None \<longleftrightarrow> k \<notin> fst ` set d"
proof (induction d)
  case Nil
  show ?case by simp
next
  case (Cons p d)
  obtain k' v' where p: "p = (k', v')" by (cases p) auto
  show ?case
  proof (cases "k' = k")
    case True
    with p show ?thesis by simp
  next
    case False
    with p Cons.IH show ?thesis by simp
  qed
qed

lemma dict_get_Some: "dict_get k d = Some v \<Longrightarrow> (k, v) \<in> set d"
  by (induction d) (auto split: if_splits)

lemma dict_get_delitem: "dict_get k (dict_delitem k d) = None"
  by (induction d) auto

text \<open>
  C5: after \<open>add_record r\<close>, looking up the name of \<open>r\<close> gives \<open>r\<close>. After adding \<open>r1\<close> and
  then \<open>r2\<close> under the same name, the lookup gives \<open>r2\<close>, and the book is the one that adding
  \<open>r2\<close> alone would have given: nothing of \<open>r1\<close> is left. \<open>add_record\<close> has no error to raise.
\<close>

theorem add_record_then_find:
  "AddressBook_find (val (name r)) (add_record r book) = Some r
   \<and> (val (name r1) = val (name r2) \<longrightarrow>
        AddressBook_find (val (name r2)) (add_record r2 (add_record r1 book)) = Some r2
        \<and> add_record r2 (add_record r1 book) = add_record r2 book)"
  by (simp add: AddressBook_find_def add_record_def dict_get_setitem dict_setitem_twice)

theorem add_record_then_find_witness:
  "AddressBook_find (lit ''Ann'')
     (add_record \<lparr>name = Name (lit ''Ann''), phones = [Field (lit ''5555555555'')], birthday = None\<rparr>
       (add_record \<lparr>name = Name (lit ''Ann''), phones = [Field (lit ''0123456789'')], birthday = None\<rparr>
          \<lparr>data = []\<rparr>))
     = Some \<lparr>name = Name (lit ''Ann''), phones = [Field (lit ''5555555555'')], birthday = None\<rparr>
   \<and> add_record \<lparr>name = Name (lit ''Ann''), phones = [Field (lit ''5555555555'')], birthday = None\<rparr>
       (add_record \<lparr>name = Name (lit ''Ann''), phones = [Field (lit ''0123456789'')], birthday = None\<rparr>
          \<lparr>data = []\<rparr>)
     = add_record \<lparr>name = Name (lit ''Ann''), phones = [Field (lit ''5555555555'')], birthday = None\<rparr>
          \<lparr>data = []\<rparr>"
  using add_record_then_find
    [of "\<lparr>name = Name (lit ''Ann''), phones = [Field (lit ''5555555555'')], birthday = None\<rparr>" "\<lparr>data = []\<rparr>"
        "\<lparr>name = Name (lit ''Ann''), phones = [Field (lit ''0123456789'')], birthday = None\<rparr>"
        "\<lparr>name = Name (lit ''Ann''), phones = [Field (lit ''5555555555'')], birthday = None\<rparr>"]
  by (simp add: Name_def)

text \<open>
  C7: \<open>AddressBook_find\<close> returns \<open>None\<close> exactly when no key of the dictionary equals the
  name, character for character, and otherwise the record stored under that very key; it
  has no error to raise. Deleting a name that is absent leaves the book as it was, and
  after deleting a name the lookup of that name gives \<open>None\<close>.
\<close>

theorem find_and_delete:
  "(AddressBook_find nm book = None \<longleftrightarrow> nm \<notin> fst ` set (data book))
   \<and> (\<forall>r. AddressBook_find nm book = Some r \<longrightarrow> (nm, r) \<in> set (data book))
   \<and> (nm \<notin> fst ` set (data book) \<longrightarrow> delete nm book = book)
   \<and> AddressBook_find nm (delete nm book) = None"
proof (intro conjI allI impI)
  show "AddressBook_find nm book = None \<longleftrightarrow> nm \<notin> fst ` set (data book)"
    by (simp add: AddressBook_find_def dict_get_None_iff)
next
  fix r
  assume "AddressBook_find nm book = Some r"
  then show "(nm, r) \<in> set (data book)"
    by (simp add: AddressBook_find_def dict_get_Some)
next
  assume "nm \<notin> fst ` set (data book)"
  then have "dict_get nm (data book) = None"
    by (simp add: dict_get_None_iff)
  then show "delete nm book = book"
    by (simp add: delete_def dict_contains_def)
next
  show "AddressBook_find nm (delete nm book) = None"
    by (simp add: AddressBook_find_def delete_def dict_contains_def dict_get_delitem)
qed

theorem find_and_delete_witness:
  "AddressBook_find (lit ''alice'')
      \<lparr>data = [(lit ''Alice'', \<lparr>name = Name (lit ''Alice''), phones = [], birthday = None\<rparr>)]\<rparr> = None
   \<and> delete (lit ''alice'')
      \<lparr>data = [(lit ''Alice'', \<lparr>name = Name (lit ''Alice''), phones = [], birthday = None\<rparr>)]\<rparr>
      = \<lparr>data = [(lit ''Alice'', \<lparr>name = Name (lit ''Alice''), phones = [], birthday = None\<rparr>)]\<rparr>
   \<and> AddressBook_find (lit ''Alice'')
      (delete (lit ''Alice'')
        \<lparr>data = [(lit ''Alice'', \<lparr>name = Name (lit ''Alice''), phones = [], birthday = None\<rparr>)]\<rparr>) = None"
  using find_and_delete
    [of "lit ''alice''" "\<lparr>data = [(lit ''Alice'', \<lparr>name = Name (lit ''Alice''), phones = [], birthday = None\<rparr>)]\<rparr>"]
    find_and_delete
    [of "lit ''Alice''" "\<lparr>data = [(lit ''Alice'', \<lparr>name = Name (lit ''Alice''), phones = [], birthday = None\<rparr>)]\<rparr>"]
  by (simp add: lit_def)

end
